(* ===== verification/Prelude.thy ===== *)
theory Prelude
  imports Main "HOL-Library.Word"
begin

text \<open>
  What every component shares: the machine types of the C sources, the collections of
  rewrite rules the component proofs hand to the simplifier, and the generic lemmas on lists
  and on arithmetic modulo the ring size.

  \<^item> \<open>u64\<close> is \<^verbatim>\<open>unsigned long long\<close> and \<open>u32\<close> is \<^verbatim>\<open>unsigned int\<close>; both wrap around.
  \<^item> \<open>cstring\<close> is the contents of a NUL-terminated C string, without its terminator.
  \<^item> a return code of the sources is an \<open>int\<close>: 0 is success and -1 is failure.
\<close>

type_synonym u64 = "64 word"
type_synonym u32 = "32 word"
type_synonym cstring = "char list"
type_synonym rc = int

named_theorems libc_simps \<open>evaluation rules of the C library layer\<close>
named_theorems wf_intros \<open>introduction rules of the well-formedness invariants\<close>

abbreviation NUL :: char where "NUL \<equiv> CHR 0x00"
abbreviation TAB :: char where "TAB \<equiv> CHR 0x09"
abbreviation LF :: char where "LF \<equiv> CHR 0x0A"
abbreviation CR :: char where "CR \<equiv> CHR 0x0D"
abbreviation SPC :: char where "SPC \<equiv> CHR 0x20"
abbreviation DQUOTE :: char where "DQUOTE \<equiv> CHR 0x22"
abbreviation BSLASH :: char where "BSLASH \<equiv> CHR 0x5C"

section \<open>Counters\<close>

text \<open>The difference of two readings of a counter, 0 when it went back:
  \<^verbatim>\<open>(curr >= prev) ? (curr - prev) : 0\<close>, as the collectors write it.\<close>

definition monus :: "u64 \<Rightarrow> u64 \<Rightarrow> u64" where
  "monus cur prev = (if cur \<ge> prev then cur - prev else 0)"

lemma unat_monus: "unat (monus cur prev) = unat cur - unat prev"
  by (simp add: monus_def word_le_nat_alt unat_sub)

lemma monus_self [simp]: "monus c c = 0"
  by (simp add: monus_def)

section \<open>Lists\<close>

lemma takeWhile_all: "\<forall>x \<in> set xs. P x \<Longrightarrow> takeWhile P xs = xs"
  by (simp add: takeWhile_eq_all_conv)

lemma dropWhile_all: "\<forall>x \<in> set xs. P x \<Longrightarrow> dropWhile P xs = []"
  by (simp add: dropWhile_eq_Nil_conv)

lemma takeWhile_stop:
  "\<forall>x \<in> set xs. P x \<Longrightarrow> \<not> P y \<Longrightarrow> takeWhile P (xs @ y # ys) = xs"
  by (induction xs) auto

lemma dropWhile_stop:
  "\<forall>x \<in> set xs. P x \<Longrightarrow> \<not> P y \<Longrightarrow> dropWhile P (xs @ y # ys) = y # ys"
  by (induction xs) auto

lemma set_dropWhile_subset: "set (dropWhile P xs) \<subseteq> set xs"
  by (induction xs) auto

lemma length_dropWhile_less: "xs \<noteq> [] \<Longrightarrow> P (hd xs) \<Longrightarrow> length (dropWhile P xs) < length xs"
  by (cases xs) (auto simp: le_imp_less_Suc length_dropWhile_le)

lemma take_tl_snoc:
  "0 < n \<Longrightarrow> length xs = n \<Longrightarrow> length (tl xs @ [x]) = n"
  by (cases xs) auto

section \<open>Ring indices\<close>

lemma mod_add_inj_le:
  fixes h i j n :: nat
  assumes "i \<le> j" "j < n" "(h + j) mod n = (h + i) mod n"
  shows "i = j"
proof -
  have "n dvd (h + j) - (h + i)"
    using assms(1,3) by (subst mod_eq_dvd_iff_nat [symmetric]) auto
  with nat_dvd_not_less [of "j - i" n] assms(1,2) show ?thesis
    by (cases "i < j") auto
qed

lemma mod_add_inj:
  fixes h i j n :: nat
  assumes "i < n" "j < n" "(h + i) mod n = (h + j) mod n"
  shows "i = j"
  using mod_add_inj_le [of i j n h] mod_add_inj_le [of j i n h] assms by linarith

lemma ring_advance:
  fixes h c n :: nat
  assumes "0 < c"
  shows "((h + 1) mod n + (c - 1)) mod n = (h + c) mod n"
proof -
  have "(h + 1) + (c - 1) = h + c" using assms by simp
  then show ?thesis by (metis mod_add_left_eq)
qed

end
