(* ===== verification/C_Lib.thy ===== *)
theory C_Lib
  imports Prelude "HOL-Library.Char_ord"
begin

text \<open>
  The part of the C standard library the sources call, on the contents of C strings:
  character classes of the "C" locale (the program never calls \<^verbatim>\<open>setlocale\<close>),
  \<^verbatim>\<open>strncpy\<close> and \<^verbatim>\<open>snprintf("%s")\<close> into sized buffers, \<^verbatim>\<open>strtol\<close>, \<^verbatim>\<open>strtoull\<close>,
  \<^verbatim>\<open>strchr\<close>, \<^verbatim>\<open>strtok\<close>, \<^verbatim>\<open>fgets\<close>, the \<^verbatim>\<open>%llu\<close> and \<^verbatim>\<open>%d\<close> conversions of
  \<^verbatim>\<open>sscanf\<close>, and decimal output. These are models of documented library behaviour; the
  lemmas say what the components rely on.
\<close>

section \<open>Characters\<close>

definition char_code :: "char \<Rightarrow> nat" where
  "char_code c = of_char c"

definition isspace :: "char \<Rightarrow> bool" where
  "isspace c \<longleftrightarrow> c = SPC \<or> c = TAB \<or> c = LF \<or> c = CHR 0x0B \<or> c = CHR 0x0C \<or> c = CR"

definition isdigit :: "char \<Rightarrow> bool" where
  "isdigit c \<longleftrightarrow> 48 \<le> char_code c \<and> char_code c \<le> 57"

definition isalpha :: "char \<Rightarrow> bool" where
  "isalpha c \<longleftrightarrow> 65 \<le> char_code c \<and> char_code c \<le> 90 \<or> 97 \<le> char_code c \<and> char_code c \<le> 122"

definition digit_val :: "char \<Rightarrow> nat" where
  "digit_val c = char_code c - 48"

definition digit_char :: "nat \<Rightarrow> char" where
  "digit_char d = char_of (48 + d)"

lemmas char_simps [libc_simps] =
  char_code_def isspace_def isdigit_def isalpha_def digit_val_def digit_char_def

lemma char_code_digit_char: "d < 10 \<Longrightarrow> char_code (digit_char d) = 48 + d"
  by (simp add: char_code_def digit_char_def)

lemma isdigit_digit_char [simp]: "d < 10 \<Longrightarrow> isdigit (digit_char d)"
  by (simp add: isdigit_def char_code_digit_char)

lemma digit_val_digit_char [simp]: "d < 10 \<Longrightarrow> digit_val (digit_char d) = d"
  by (simp add: digit_val_def char_code_digit_char)

lemma digit_val_less: "isdigit c \<Longrightarrow> digit_val c < 10"
  by (auto simp: isdigit_def digit_val_def)

lemma isspace_code: "isspace c \<Longrightarrow> char_code c \<in> {9, 10, 11, 12, 13, 32}"
  by (auto simp: isspace_def char_code_def)

lemma isdigit_not_isspace: "isdigit c \<Longrightarrow> \<not> isspace c"
  using isspace_code [of c] by (auto simp: isdigit_def)

lemma isspace_consts [simp]: "isspace SPC" "isspace TAB" "isspace LF" "isspace CR" "\<not> isspace NUL"
  by (simp_all add: isspace_def)

lemma isdigit_consts [simp]:
  "\<not> isdigit NUL" "\<not> isdigit SPC" "\<not> isdigit LF" "\<not> isdigit TAB"
  "\<not> isdigit (CHR ''-'')" "\<not> isdigit (CHR ''+'')" "\<not> isdigit (CHR '':'')"
  by (simp_all add: isdigit_def char_code_def)

section \<open>Strings in buffers\<close>

text \<open>What a C string function reads from a byte array: the bytes before the first NUL.\<close>

definition cstr :: "char list \<Rightarrow> cstring" where
  "cstr buf = takeWhile (\<lambda>c. c \<noteq> NUL) buf"

definition no_nul :: "cstring \<Rightarrow> bool" where
  "no_nul s \<longleftrightarrow> NUL \<notin> set s"

text \<open>
  \<^verbatim>\<open>strncpy(dst, src, sizeof(dst) - 1)\<close> into a buffer whose last byte is NUL, and
  \<^verbatim>\<open>snprintf(dst, sizeof(dst), "%s", src)\<close>: both leave the first \<open>sizeof(dst) - 1\<close>
  characters of the source.
\<close>

definition copy_trunc :: "nat \<Rightarrow> cstring \<Rightarrow> cstring" where
  "copy_trunc size_dst src = take (size_dst - 1) src"

lemma cstr_no_nul [simp]: "no_nul (cstr buf)"
  by (auto simp: no_nul_def cstr_def dest: set_takeWhileD)

lemma cstr_id: "no_nul s \<Longrightarrow> cstr s = s"
  unfolding no_nul_def cstr_def by (rule takeWhile_all) blast

lemma cstr_terminated: "no_nul s \<Longrightarrow> cstr (s @ NUL # rest) = s"
  unfolding no_nul_def cstr_def by (rule takeWhile_stop) auto

lemma length_cstr: "length (cstr buf) \<le> length buf"
  by (simp add: cstr_def length_takeWhile_le)

lemma no_nul_simps [simp]:
  "no_nul []" "no_nul (c # s) \<longleftrightarrow> c \<noteq> NUL \<and> no_nul s" "no_nul (s @ t) \<longleftrightarrow> no_nul s \<and> no_nul t"
  by (auto simp: no_nul_def)

lemma no_nul_take: "no_nul s \<Longrightarrow> no_nul (take n s)"
  by (auto simp: no_nul_def dest: in_set_takeD)

lemma length_copy_trunc: "0 < n \<Longrightarrow> length (copy_trunc n s) < n"
  by (auto simp: copy_trunc_def)

lemma copy_trunc_fits [simp]: "length s < n \<Longrightarrow> copy_trunc n s = s"
  by (simp add: copy_trunc_def)

lemma copy_trunc_idem: "copy_trunc n (copy_trunc n s) = copy_trunc n s"
  by (simp add: copy_trunc_def)

lemma no_nul_copy_trunc: "no_nul s \<Longrightarrow> no_nul (copy_trunc n s)"
  by (simp add: copy_trunc_def no_nul_take)

definition memmove :: "char list \<Rightarrow> nat \<Rightarrow> nat \<Rightarrow> nat \<Rightarrow> char list" where
  "memmove buf dst src n = take dst buf @ take n (drop src buf) @ drop (dst + n) buf"

text \<open>\<open>store_str\<close> writes a string and its terminator at the start of an array.\<close>

definition store_str :: "cstring \<Rightarrow> char list \<Rightarrow> char list" where
  "store_str s buf = s @ NUL # drop (Suc (length s)) buf"

text \<open>Clock readings, and the bytes \<^verbatim>\<open>memmove\<close> and a string store write, are
  shared by several components.\<close>

record timespec =
  tv_sec :: int
  tv_nsec :: int

section \<open>Numbers\<close>

text \<open>\<^verbatim>\<open>strtol\<close> and \<^verbatim>\<open>strtoull\<close> in base 10 return nothing when no digit is found
  (\<^verbatim>\<open>endptr == nptr\<close>), and else the value, the rest of the string at \<^verbatim>\<open>endptr\<close> and whether
  \<^verbatim>\<open>errno\<close> was set to \<^verbatim>\<open>ERANGE\<close>.\<close>

definition dec_val :: "cstring \<Rightarrow> nat" where
  "dec_val ds = foldl (\<lambda>a c. 10 * a + digit_val c) 0 ds"

fun take_sign :: "cstring \<Rightarrow> bool \<times> cstring" where
  "take_sign [] = (False, [])"
| "take_sign (c # s) =
     (if c = CHR ''-'' then (True, s) else if c = CHR ''+'' then (False, s) else (False, c # s))"

definition LONG_MAX :: int where "LONG_MAX = 2 ^ 63 - 1"
definition LONG_MIN :: int where "LONG_MIN = - (2 ^ 63)"

definition strtol :: "cstring \<Rightarrow> (int \<times> cstring \<times> bool) option" where
  "strtol s =
     (let (neg, t) = take_sign (dropWhile isspace s);
          ds = takeWhile isdigit t; rest = dropWhile isdigit t;
          v = (if neg then - int (dec_val ds) else int (dec_val ds))
      in if ds = [] then None
         else if v > LONG_MAX then Some (LONG_MAX, rest, True)
         else if v < LONG_MIN then Some (LONG_MIN, rest, True)
         else Some (v, rest, False))"

definition strtoull :: "cstring \<Rightarrow> (u64 \<times> cstring \<times> bool) option" where
  "strtoull s =
     (let (neg, t) = take_sign (dropWhile isspace s);
          ds = takeWhile isdigit t; rest = dropWhile isdigit t; m = dec_val ds
      in if ds = [] then None
         else if m \<ge> 2 ^ 64 then Some (- 1, rest, True)
         else Some (if neg then - of_nat m else of_nat m, rest, False))"

text \<open>The \<^verbatim>\<open>%llu\<close> and \<^verbatim>\<open>%d\<close> conversions of \<^verbatim>\<open>sscanf\<close>: skip white space, convert, or fail.
  The value of \<^verbatim>\<open>%d\<close> is never used by the sources, so only the rest is kept.\<close>

definition scan_llu :: "cstring \<Rightarrow> (u64 \<times> cstring) option" where
  "scan_llu s = map_option (\<lambda>(v, rest, _). (v, rest)) (strtoull s)"

definition scan_d :: "cstring \<Rightarrow> cstring option" where
  "scan_d s = map_option (\<lambda>(_, rest, _). rest) (strtol s)"

fun scan_lit :: "cstring \<Rightarrow> cstring \<Rightarrow> cstring option" where
  "scan_lit [] s = Some s"
| "scan_lit (c # cs) [] = None"
| "scan_lit (c # cs) (d # s) = (if c = d then scan_lit cs s else None)"

text \<open>\<open>scan_llus n s\<close> is \<open>n\<close> conversions \<^verbatim>\<open>"%llu %llu ..."\<close> in a row: the values assigned
  before the first conversion that fails.\<close>

fun scan_llus :: "nat \<Rightarrow> cstring \<Rightarrow> u64 list" where
  "scan_llus 0 s = []"
| "scan_llus (Suc n) s =
     (case scan_llu s of None \<Rightarrow> [] | Some (v, rest) \<Rightarrow> v # scan_llus n rest)"

text \<open>Decimal output (\<^verbatim>\<open>%d\<close>, \<^verbatim>\<open>%u\<close>, \<^verbatim>\<open>%llu\<close>).\<close>

fun show_nat :: "nat \<Rightarrow> cstring" where
  "show_nat n = (if n < 10 then [digit_char n] else show_nat (n div 10) @ [digit_char (n mod 10)])"

declare show_nat.simps [simp del]

definition show_int :: "int \<Rightarrow> cstring" where
  "show_int i = (if i < 0 then CHR ''-'' # show_nat (nat (- i)) else show_nat (nat i))"

lemma dec_val_snoc [simp]: "dec_val (ds @ [c]) = 10 * dec_val ds + digit_val c"
  by (simp add: dec_val_def)

lemma dec_val_Nil [simp]: "dec_val [] = 0"
  by (simp add: dec_val_def)

lemma dec_val_show_nat [simp]: "dec_val (show_nat n) = n"
proof (induction n rule: show_nat.induct)
  case (1 n)
  show ?case
  proof (cases "n < 10")
    case True
    then have "dec_val ([] @ [digit_char n]) = n" by (simp only: dec_val_snoc) simp
    with True show ?thesis by (simp add: show_nat.simps [of n])
  next
    case False
    with 1 show ?thesis by (simp add: show_nat.simps [of n])
  qed
qed

lemma isdigit_show_nat: "\<forall>c \<in> set (show_nat n). isdigit c"
proof (induction n rule: show_nat.induct)
  case (1 n)
  then show ?case by (cases "n < 10") (auto simp: show_nat.simps [of n])
qed

lemma show_nat_not_Nil [simp]: "show_nat n \<noteq> []"
  by (subst show_nat.simps) simp

lemma show_nat_hd: "\<exists>c cs. show_nat n = c # cs \<and> isdigit c"
  using isdigit_show_nat [of n] by (cases "show_nat n") auto

lemma length_show_nat: "n < 10 ^ k \<Longrightarrow> 0 < k \<Longrightarrow> length (show_nat n) \<le> k"
proof (induction n arbitrary: k rule: show_nat.induct)
  case (1 n)
  show ?case
  proof (cases "n < 10")
    case True
    with 1 show ?thesis by (simp add: show_nat.simps [of n])
  next
    case False
    with "1.prems" obtain j where k: "k = Suc j" "0 < j"
      by (cases k; cases "k - 1") auto
    with "1.prems" have "n div 10 < 10 ^ j" by (simp add: less_mult_imp_div_less mult.commute)
    with False k 1 show ?thesis by (simp add: show_nat.simps [of n])
  qed
qed

lemma no_nul_show_nat [simp]: "no_nul (show_nat n)"
  using isdigit_show_nat [of n] by (auto simp: no_nul_def)

section \<open>Reading numbers back\<close>

text \<open>Where a number ends: at the end of the string or at a character that is no digit.\<close>

definition num_end :: "cstring \<Rightarrow> bool" where
  "num_end rest \<longleftrightarrow> (case rest of [] \<Rightarrow> True | c # _ \<Rightarrow> \<not> isdigit c)"

lemma num_end_simps [simp]: "num_end []" "num_end (c # s) \<longleftrightarrow> \<not> isdigit c"
  by (simp_all add: num_end_def)

lemma num_end_spans [simp]:
  "num_end rest \<Longrightarrow> takeWhile isdigit rest = []" "num_end rest \<Longrightarrow> dropWhile isdigit rest = rest"
  by (cases rest; simp)+

lemma take_sign_digit [simp]: "isdigit c \<Longrightarrow> take_sign (c # s) = (False, c # s)"
  by auto

lemma dropWhile_space_number:
  "\<forall>c \<in> set ws. isspace c \<Longrightarrow> \<not> isspace d \<Longrightarrow> dropWhile isspace (ws @ d # s) = d # s"
  by (rule dropWhile_stop)

lemma take_sign_show_nat:
  assumes "\<forall>c \<in> set ws. isspace c"
  shows "take_sign (dropWhile isspace (ws @ show_nat n @ rest)) = (False, show_nat n @ rest)"
proof -
  obtain c cs where "show_nat n = c # cs" "isdigit c" using show_nat_hd by blast
  with assms show ?thesis 
    by (simp add: dropWhile_space_number isdigit_not_isspace del: take_sign.simps)
qed

lemma minus_not_space [simp]: "\<not> isspace (CHR ''-'')" "\<not> isspace (CHR ''+'')"
  by (simp_all add: isspace_def)

lemma take_sign_minus:
  "\<forall>c \<in> set ws. isspace c \<Longrightarrow> take_sign (dropWhile isspace (ws @ CHR ''-'' # s)) = (True, s)"
  by (simp add: dropWhile_space_number)

lemma strtoull_show_nat:
  assumes "\<forall>c \<in> set ws. isspace c" "num_end rest"
  shows "strtoull (ws @ show_nat n @ rest) =
    (if n \<ge> 2 ^ 64 then Some (- 1, rest, True) else Some (of_nat n, rest, False))"
  using assms isdigit_show_nat [of n]
  unfolding strtoull_def take_sign_show_nat [OF assms(1)] by (simp add: Let_def)

lemma scan_llu_show_nat:
  assumes "\<forall>c \<in> set ws. isspace c" "num_end rest"
  shows "scan_llu (ws @ show_nat n @ rest) = Some (if n \<ge> 2 ^ 64 then - 1 else of_nat n, rest)"
  unfolding scan_llu_def strtoull_show_nat [OF assms] by (cases "n \<ge> 2 ^ 64") simp_all

lemma strtol_show_int:
  assumes "\<forall>c \<in> set ws. isspace c" "num_end rest"
  shows "strtol (ws @ show_int i @ rest) =
    (if i > LONG_MAX then Some (LONG_MAX, rest, True)
     else if i < LONG_MIN then Some (LONG_MIN, rest, True) else Some (i, rest, False))"
proof (cases "i < 0")
  case True
  then have t: "take_sign (dropWhile isspace (ws @ show_int i @ rest)) =
      (True, show_nat (nat (- i)) @ rest)"
    by (simp only: show_int_def if_True append_Cons take_sign_minus [OF assms(1)])
  show ?thesis
    unfolding strtol_def t using True assms(2) isdigit_show_nat [of "nat (- i)"]
    by (simp add: Let_def LONG_MAX_def)
next
  case False
  then have t: "take_sign (dropWhile isspace (ws @ show_int i @ rest)) = (False, show_nat (nat i) @ rest)"
    by (simp only: show_int_def if_False take_sign_show_nat [OF assms(1)])
  show ?thesis
    unfolding strtol_def t using False assms(2) isdigit_show_nat [of "nat i"]
    by (simp add: Let_def LONG_MIN_def)
qed

lemma scan_d_show_nat: "num_end rest \<Longrightarrow> scan_d (show_nat i @ rest) = Some rest"
  using strtol_show_int [of "[]" rest "int i"]
  by (cases "int i > LONG_MAX"; cases "int i < LONG_MIN") (simp_all add: scan_d_def show_int_def)

section \<open>Lines and tokens\<close>

text \<open>One \<^verbatim>\<open>fgets(buf, n + 1, f)\<close> on the unread part of a stream: at most \<open>n\<close> bytes, up to
  and including the first newline, and what is left unread.\<close>

fun fgets_split :: "nat \<Rightarrow> char list \<Rightarrow> char list \<times> char list" where
  "fgets_split n [] = ([], [])"
| "fgets_split n (c # s) =
     (if n = 0 then ([], c # s)
      else if c = LF then ([c], s)
      else let (l, r) = fgets_split (n - 1) s in (c # l, r))"

lemma fgets_split_append: "fgets_split n s = (l, r) \<Longrightarrow> s = l @ r"
  by (induction n s arbitrary: l r rule: fgets_split.induct) (auto split: if_splits prod.splits)

lemma fgets_split_progress: "fgets_split n (c # s) = (l, r) \<Longrightarrow> 0 < n \<Longrightarrow> length r < Suc (length s)"
  using fgets_split_append [of n "c # s" l r] by (cases l) (auto split: if_splits prod.splits)

text \<open>The loop \<^verbatim>\<open>while (fgets(line, sizeof(line), f))\<close>: the strings it sees one after the
  other. A byte NUL in the file ends the string, as it does for the C code.\<close>

function fgets_lines :: "nat \<Rightarrow> char list \<Rightarrow> cstring list" where
  "fgets_lines size_line s =
     (if s = [] \<or> size_line < 2 then []
      else let (l, r) = fgets_split (size_line - 1) s in cstr l # fgets_lines size_line r)"
  by pat_completeness auto
termination
proof (relation "measure (\<lambda>(_, s). length s)")
  fix n :: nat and s :: "char list" and x l r
  assume a: "\<not> (s = [] \<or> n < 2)" "x = fgets_split (n - 1) s" "(l, r) = x"
  then obtain c t where s: "s = c # t" by (cases s) auto
  have "length r < Suc (length t)"
    using a s by (intro fgets_split_progress [of "n - 1" c t l r]) auto
  then show "((n, r), (n, s)) \<in> measure (\<lambda>(_, s). length s)" using s by simp
qed simp

declare fgets_lines.simps [simp del]

lemma fgets_lines_Nil [simp]: "fgets_lines n [] = []"
  by (simp add: fgets_lines.simps)

lemma fgets_split_line:
  "LF \<notin> set l \<Longrightarrow> length l < n \<Longrightarrow> fgets_split n (l @ LF # s) = (l @ [LF], s)"
  by (induction l arbitrary: n) auto

text \<open>A file of lines that fit the buffer is read line by line.\<close>

lemma fgets_lines_Cons:
  assumes "LF \<notin> set l" "no_nul l" "Suc (length l) < n"
  shows "fgets_lines n (l @ LF # s) = (l @ [LF]) # fgets_lines n s"
  using assms by (subst fgets_lines.simps) (simp add: fgets_split_line cstr_id)

text \<open>What the first line of a file starts with.\<close>

lemma fgets_split_prefix:
  "LF \<notin> set p \<Longrightarrow> length p \<le> n \<Longrightarrow> \<exists>l r. fgets_split n (p @ s) = (p @ l, r)"
proof (induction p arbitrary: n)
  case Nil
  then show ?case by (cases "fgets_split n s") simp
next
  case (Cons c p)
  then obtain l r where "fgets_split (n - 1) (p @ s) = (p @ l, r)"
    by (metis One_nat_def diff_Suc_1 Suc_le_D length_Cons list.set_intros(2) Suc_le_mono)
  with Cons.prems show ?case by auto
qed

lemma fgets_lines_prefix:
  assumes "p \<noteq> []" "LF \<notin> set p" "no_nul p" "Suc (length p) \<le> n"
  shows "\<exists>l ls. fgets_lines n (p @ s) = (p @ l) # ls"
proof -
  obtain l r where "fgets_split (n - 1) (p @ s) = (p @ l, r)"
    using fgets_split_prefix [OF assms(2), of "n - 1" s] assms(4) by (metis Suc_le_D Suc_le_mono diff_Suc_1)
  moreover have "cstr (p @ l) = p @ cstr l"
    using assms(3) unfolding cstr_def no_nul_def by (subst takeWhile_append2) auto
  moreover have "1 < n" using assms(1,4) by (cases p) auto
  ultimately show ?thesis using assms(1) by (subst fgets_lines.simps) simp
qed

text \<open>A line, newline included, that a buffer of \<open>n\<close> bytes holds.\<close>

definition text_line :: "nat \<Rightarrow> cstring \<Rightarrow> bool" where
  "text_line n l \<longleftrightarrow> (\<exists>b. l = b @ [LF] \<and> LF \<notin> set b \<and> no_nul b \<and> Suc (length b) < n)"

lemma text_line_intro:
  "LF \<notin> set b \<Longrightarrow> no_nul b \<Longrightarrow> Suc (length b) < n \<Longrightarrow> l = b @ [LF] \<Longrightarrow> text_line n l"
  by (auto simp: text_line_def)

lemma fgets_lines_append:
  "list_all (text_line n) ls \<Longrightarrow> fgets_lines n (concat ls @ rest) = ls @ fgets_lines n rest"
  by (induction ls) (auto simp: text_line_def fgets_lines_Cons)

lemma fgets_lines_concat: "list_all (text_line n) ls \<Longrightarrow> fgets_lines n (concat ls) = ls"
  using fgets_lines_append [of n ls "[]"] by simp

text \<open>The tokens a loop of \<^verbatim>\<open>strtok\<close> calls yields.\<close>

function strtok_all :: "(char \<Rightarrow> bool) \<Rightarrow> cstring \<Rightarrow> cstring list" where
  "strtok_all delim s =
     (let t = dropWhile delim s
      in if t = [] then []
         else takeWhile (\<lambda>c. \<not> delim c) t # strtok_all delim (dropWhile (\<lambda>c. \<not> delim c) t))"
  by pat_completeness auto
termination
proof (relation "measure (\<lambda>(_, s). length s)")
  fix delim :: "char \<Rightarrow> bool" and s t :: cstring
  assume t: "t = dropWhile delim s" "t \<noteq> []"
  then have "length (dropWhile (\<lambda>c. \<not> delim c) t) < length t"
    using hd_dropWhile [of delim s] by (intro length_dropWhile_less) auto
  moreover have "length t \<le> length s" using t by (simp add: length_dropWhile_le)
  ultimately show "((delim, dropWhile (\<lambda>c. \<not> delim c) t), (delim, s)) \<in> measure (\<lambda>(_, s). length s)"
    by simp
qed simp

declare strtok_all.simps [simp del]

lemma strtok_all_Nil [simp]: "strtok_all delim [] = []"
  by (simp add: strtok_all.simps)

lemma strtok_all_delims: "\<forall>c \<in> set ws. delim c \<Longrightarrow> strtok_all delim ws = []"
  by (subst strtok_all.simps) (simp add: dropWhile_all)

lemma strtok_all_token:
  assumes "\<forall>c \<in> set ws. delim c" "tok \<noteq> []" "\<forall>c \<in> set tok. \<not> delim c"
    and "rest = [] \<or> delim (hd rest)"
  shows "strtok_all delim (ws @ tok @ rest) = tok # strtok_all delim rest"
proof -
  obtain a tk where tok: "tok = a # tk" using assms(2) by (cases tok) auto
  have d: "dropWhile delim (ws @ tok @ rest) = tok @ rest"
    using assms(1,3) by (simp add: tok dropWhile_stop)
  have "takeWhile (\<lambda>c. \<not> delim c) (tok @ rest) = tok"
    "dropWhile (\<lambda>c. \<not> delim c) (tok @ rest) = rest"
    using assms(3,4) by (cases rest; auto simp: takeWhile_all dropWhile_all takeWhile_stop dropWhile_stop)+
  then show ?thesis
    using assms(2) by (subst strtok_all.simps) (simp add: d)
qed

lemma strtok_all_chars: "tok \<in> set (strtok_all delim s) \<Longrightarrow> tok \<noteq> [] \<and> set tok \<subseteq> {c \<in> set s. \<not> delim c}"
proof (induction delim s rule: strtok_all.induct)
  case (1 delim s)
  let ?t = "dropWhile delim s"
  have t: "set ?t \<subseteq> set s" by (rule set_dropWhile_subset)
  show ?case
  proof (cases "?t = []")
    case True
    with "1.prems" show ?thesis by (simp add: strtok_all.simps [of delim s])
  next
    case False
    then have hd: "\<not> delim (hd ?t)" using hd_dropWhile by blast
    have "strtok_all delim s =
        takeWhile (\<lambda>c. \<not> delim c) ?t # strtok_all delim (dropWhile (\<lambda>c. \<not> delim c) ?t)"
      using False by (subst strtok_all.simps) (simp only: Let_def if_False)
    then consider "tok = takeWhile (\<lambda>c. \<not> delim c) ?t"
      | "tok \<in> set (strtok_all delim (dropWhile (\<lambda>c. \<not> delim c) ?t))"
      using "1.prems" by auto
    then show ?thesis
    proof cases
      case 1
      then show ?thesis
        using t hd False by (cases ?t) (auto dest: set_takeWhileD)
    next
      case 2
      from "1.IH" [OF refl False 2] t set_dropWhile_subset [of "\<lambda>c. \<not> delim c" ?t]
      show ?thesis by blast
    qed
  qed
qed

section \<open>Comma-separated lists\<close>

text \<open>The text of a JSON array, without its brackets.\<close>

fun join_items :: "cstring list \<Rightarrow> cstring" where
  "join_items [] = []"
| "join_items [s] = s"
| "join_items (s # t # rest) = s @ '','' @ join_items (t # rest)"

lemma join_Cons: "join_items (s # rest) = s @ (if rest \<noteq> [] then '','' else []) @ join_items rest"
  by (cases rest) simp_all

lemma length_join: "items \<noteq> [] \<Longrightarrow> length (join_items items) + 1 = sum_list (map (\<lambda>s. length s + 1) items)"
  by (induction items rule: join_items.induct) auto

section \<open>Rows of numbers\<close>

text \<open>Numbers with one space in front of each, as the files of \<^verbatim>\<open>/proc\<close> have them.\<close>

definition number_row :: "u64 list \<Rightarrow> cstring" where
  "number_row vs = concat (map (\<lambda>v. SPC # show_nat (unat v)) vs)"

lemma number_row_simps [simp]:
  "number_row [] = []" "number_row (v # vs) = SPC # show_nat (unat v) @ number_row vs"
  "number_row (vs @ us) = number_row vs @ number_row us"
  by (simp_all add: number_row_def)

lemma num_end_row: "num_end rest \<Longrightarrow> num_end (number_row vs @ rest)"
  by (cases vs) simp_all

lemma scan_llu_u64:
  assumes "num_end rest"
  shows "scan_llu (SPC # show_nat (unat v) @ rest) = Some (v, rest)"
proof -
  have "\<not> 2 ^ 64 \<le> unat v" using unsigned_less [of v, where ?'a = nat] by simp
  then show ?thesis using scan_llu_show_nat [of "[SPC]" rest "unat v"] assms by simp
qed

lemma scan_llus_row: "num_end rest \<Longrightarrow> scan_llus (length vs) (number_row vs @ rest) = vs"
  by (induction vs) (simp_all add: scan_llu_u64 num_end_row)

lemma show_nat_chars: "LF \<notin> set (show_nat n)" "SPC \<notin> set (show_nat n)" "TAB \<notin> set (show_nat n)"
  using isdigit_show_nat [of n] by auto

lemma length_show_u64: "length (show_nat (unat (v :: u64))) \<le> 20"
proof (rule length_show_nat)
  have "unat v < 2 ^ 64" using unsigned_less [of v, where ?'a = nat] by simp
  then show "unat v < 10 ^ 20" by simp
qed simp

lemma number_row_line: "LF \<notin> set (number_row vs)" "no_nul (number_row vs)" "length (number_row vs) \<le> 21 * length vs"
proof -
  show "LF \<notin> set (number_row vs)" "no_nul (number_row vs)"
    by (induction vs) (simp_all add: show_nat_chars)
  show "length (number_row vs) \<le> 21 * length vs"
  proof (induction vs)
    case (Cons v vs)
    with length_show_u64 [of v] show ?case by simp
  qed simp
qed

end
