(* ===== verification/Config_State.thy ===== *)
theory Config_State
  imports C_Lib
begin

text \<open>
  The configuration record of \<^verbatim>\<open>src/syswatch.h\<close> (\<^verbatim>\<open>syswatch_config_t\<close>), its defaults
  (\<^verbatim>\<open>init_default_config\<close> of \<^verbatim>\<open>src/main.c\<close>) and its well-formedness: the ranges and
  buffer sizes every writer of the record keeps.
\<close>

datatype process_sort_mode = PROCESS_SORT_CPU | PROCESS_SORT_MEM

record syswatch_config =
  interval_sec :: int
  iterations :: int
  csv_mode :: bool
  show_cpu :: bool
  show_memory :: bool
  show_disk :: bool
  show_network :: bool
  show_processes :: bool
  show_disk_details :: bool
  show_network_details :: bool
  include_loopback :: bool
  process_sort :: process_sort_mode
  top_n :: int
  config_path :: cstring
  validate_only :: bool
  config_version :: cstring
  output_type :: cstring
  output_url :: cstring
  output_path :: cstring
  output_auth_header :: cstring
  output_batch_size :: int
  output_batch_interval_seconds :: int
  output_retry_max_attempts :: int
  output_retry_backoff_seconds :: int
  log_level :: cstring
  log_destination :: cstring
  log_path :: cstring
  host_override :: cstring

text \<open>\<^verbatim>\<open>memset(cfg, 0, sizeof(*cfg))\<close>\<close>

definition zero_config :: syswatch_config where
  "zero_config =
     \<lparr>interval_sec = 0, iterations = 0, csv_mode = False, show_cpu = False, show_memory = False,
      show_disk = False, show_network = False, show_processes = False, show_disk_details = False,
      show_network_details = False, include_loopback = False, process_sort = PROCESS_SORT_CPU,
      top_n = 0, config_path = [], validate_only = False, config_version = [], output_type = [],
      output_url = [], output_path = [], output_auth_header = [], output_batch_size = 0,
      output_batch_interval_seconds = 0, output_retry_max_attempts = 0,
      output_retry_backoff_seconds = 0, log_level = [], log_destination = [], log_path = [],
      host_override = []\<rparr>"

definition init_default_config :: syswatch_config where
  "init_default_config = zero_config
     \<lparr>interval_sec := 1, iterations := 0, csv_mode := False,
      config_version := copy_trunc 16 ''1.0'', output_type := copy_trunc 16 ''stdout'',
      log_level := copy_trunc 16 ''info'', log_destination := copy_trunc 16 ''stderr'',
      show_cpu := True, show_memory := True, show_disk := True, show_network := True,
      show_processes := False, show_disk_details := False, show_network_details := False,
      include_loopback := False, process_sort := PROCESS_SORT_CPU, top_n := 5,
      config_path := [], validate_only := False\<rparr>"

section \<open>Well-formedness\<close>

text \<open>What \<open>load_config_file\<close> and \<open>parse_args\<close> keep. The batch and retry fields are 0 until
  a configuration file sets them.\<close>

definition cfg_ranges :: "syswatch_config \<Rightarrow> bool" where
  "cfg_ranges c \<longleftrightarrow>
     1 \<le> interval_sec c \<and> interval_sec c \<le> 86400 \<and>
     0 \<le> iterations c \<and> iterations c \<le> 1000000 \<and> 1 \<le> top_n c \<and> top_n c \<le> 1000 \<and>
     0 \<le> output_batch_size c \<and> output_batch_size c \<le> 100000 \<and>
     0 \<le> output_batch_interval_seconds c \<and> output_batch_interval_seconds c \<le> 86400 \<and>
     0 \<le> output_retry_max_attempts c \<and> output_retry_max_attempts c \<le> 100 \<and>
     0 \<le> output_retry_backoff_seconds c \<and> output_retry_backoff_seconds c \<le> 3600"

definition output_type_ok :: "cstring \<Rightarrow> bool" where
  "output_type_ok s \<longleftrightarrow> s = ''stdout'' \<or> s = ''file'' \<or> s = ''http_post''"

definition log_level_ok :: "cstring \<Rightarrow> bool" where
  "log_level_ok s \<longleftrightarrow> s = ''debug'' \<or> s = ''info'' \<or> s = ''warn'' \<or> s = ''error''"

definition log_destination_ok :: "cstring \<Rightarrow> bool" where
  "log_destination_ok s \<longleftrightarrow> s = ''stderr'' \<or> s = ''file''"

definition cfg_choices :: "syswatch_config \<Rightarrow> bool" where
  "cfg_choices c \<longleftrightarrow>
     config_version c = ''1.0'' \<and> output_type_ok (output_type c) \<and>
     log_level_ok (log_level c) \<and> log_destination_ok (log_destination c)"

definition cfg_buffers :: "syswatch_config \<Rightarrow> bool" where
  "cfg_buffers c \<longleftrightarrow>
     length (config_path c) < 256 \<and> length (output_url c) < 256 \<and>
     length (output_path c) < 256 \<and> length (output_auth_header c) < 256 \<and>
     length (log_path c) < 256 \<and> length (host_override c) < 128"

definition cfg_wf :: "syswatch_config \<Rightarrow> bool" where
  "cfg_wf c \<longleftrightarrow> cfg_ranges c \<and> cfg_choices c \<and> cfg_buffers c"

lemmas cfg_wf_defs = cfg_wf_def cfg_ranges_def cfg_choices_def cfg_buffers_def

lemmas choice_defs = output_type_ok_def log_level_ok_def log_destination_ok_def

lemma cfg_wf_default: "cfg_wf init_default_config"
  by (simp add: cfg_wf_defs choice_defs init_default_config_def zero_config_def)

text \<open>The fields only the command line sets.\<close>

definition cli_fields ::
  "syswatch_config \<Rightarrow> int \<times> bool \<times> bool \<times> bool \<times> bool \<times> process_sort_mode \<times> int \<times> cstring \<times> bool" where
  "cli_fields c =
     (iterations c, csv_mode c, show_disk_details c, show_network_details c, include_loopback c,
      process_sort c, top_n c, config_path c, validate_only c)"

section \<open>Updates of one field\<close>

text \<open>Which writes keep the record well-formed, and which leave the fields of the command line
  alone.\<close>

lemma cfg_wf_copy [wf_intros]:
  "cfg_wf c \<Longrightarrow> cfg_wf (c\<lparr>output_url := copy_trunc 256 s\<rparr>)"
  "cfg_wf c \<Longrightarrow> cfg_wf (c\<lparr>output_path := copy_trunc 256 s\<rparr>)"
  "cfg_wf c \<Longrightarrow> cfg_wf (c\<lparr>output_auth_header := copy_trunc 256 s\<rparr>)"
  "cfg_wf c \<Longrightarrow> cfg_wf (c\<lparr>log_path := copy_trunc 256 s\<rparr>)"
  "cfg_wf c \<Longrightarrow> cfg_wf (c\<lparr>host_override := copy_trunc 128 s\<rparr>)"
  "cfg_wf c \<Longrightarrow> cfg_wf (c\<lparr>config_path := copy_trunc 256 s\<rparr>)"
  by (simp_all add: cfg_wf_defs length_copy_trunc)

lemma cfg_wf_int [wf_intros]:
  "cfg_wf c \<Longrightarrow> 1 \<le> v \<Longrightarrow> v \<le> 86400 \<Longrightarrow> cfg_wf (c\<lparr>interval_sec := v\<rparr>)"
  "cfg_wf c \<Longrightarrow> 0 \<le> v \<Longrightarrow> v \<le> 1000000 \<Longrightarrow> cfg_wf (c\<lparr>iterations := v\<rparr>)"
  "cfg_wf c \<Longrightarrow> 1 \<le> v \<Longrightarrow> v \<le> 1000 \<Longrightarrow> cfg_wf (c\<lparr>top_n := v\<rparr>)"
  "cfg_wf c \<Longrightarrow> 1 \<le> v \<Longrightarrow> v \<le> 100000 \<Longrightarrow> cfg_wf (c\<lparr>output_batch_size := v\<rparr>)"
  "cfg_wf c \<Longrightarrow> 1 \<le> v \<Longrightarrow> v \<le> 86400 \<Longrightarrow> cfg_wf (c\<lparr>output_batch_interval_seconds := v\<rparr>)"
  "cfg_wf c \<Longrightarrow> 0 \<le> v \<Longrightarrow> v \<le> 100 \<Longrightarrow> cfg_wf (c\<lparr>output_retry_max_attempts := v\<rparr>)"
  "cfg_wf c \<Longrightarrow> 0 \<le> v \<Longrightarrow> v \<le> 3600 \<Longrightarrow> cfg_wf (c\<lparr>output_retry_backoff_seconds := v\<rparr>)"
  by (simp_all add: cfg_wf_defs)

lemma cfg_wf_flag [simp]:
  "cfg_wf (c\<lparr>csv_mode := b\<rparr>) = cfg_wf c"
  "cfg_wf (c\<lparr>show_cpu := b\<rparr>) = cfg_wf c"
  "cfg_wf (c\<lparr>show_memory := b\<rparr>) = cfg_wf c"
  "cfg_wf (c\<lparr>show_disk := b\<rparr>) = cfg_wf c"
  "cfg_wf (c\<lparr>show_network := b\<rparr>) = cfg_wf c"
  "cfg_wf (c\<lparr>show_processes := b\<rparr>) = cfg_wf c"
  "cfg_wf (c\<lparr>show_disk_details := b\<rparr>) = cfg_wf c"
  "cfg_wf (c\<lparr>show_network_details := b\<rparr>) = cfg_wf c"
  "cfg_wf (c\<lparr>include_loopback := b\<rparr>) = cfg_wf c"
  "cfg_wf (c\<lparr>validate_only := b\<rparr>) = cfg_wf c"
  "cfg_wf (c\<lparr>process_sort := m\<rparr>) = cfg_wf c"
  by (simp_all add: cfg_wf_defs)

lemma cfg_wf_choice [wf_intros]:
  "cfg_wf c \<Longrightarrow> v = ''1.0'' \<Longrightarrow> cfg_wf (c\<lparr>config_version := v\<rparr>)"
  "cfg_wf c \<Longrightarrow> output_type_ok v \<Longrightarrow> cfg_wf (c\<lparr>output_type := v\<rparr>)"
  "cfg_wf c \<Longrightarrow> log_level_ok v \<Longrightarrow> cfg_wf (c\<lparr>log_level := v\<rparr>)"
  "cfg_wf c \<Longrightarrow> log_destination_ok v \<Longrightarrow> cfg_wf (c\<lparr>log_destination := v\<rparr>)"
  by (simp_all add: cfg_wf_defs)

lemma cli_fields_update [simp]:
  "cli_fields (c\<lparr>output_url := x_output_url\<rparr>) = cli_fields c"
  "cli_fields (c\<lparr>output_path := x_output_path\<rparr>) = cli_fields c"
  "cli_fields (c\<lparr>output_auth_header := x_output_auth_header\<rparr>) = cli_fields c"
  "cli_fields (c\<lparr>log_path := x_log_path\<rparr>) = cli_fields c"
  "cli_fields (c\<lparr>host_override := x_host_override\<rparr>) = cli_fields c"
  "cli_fields (c\<lparr>interval_sec := x_interval_sec\<rparr>) = cli_fields c"
  "cli_fields (c\<lparr>output_batch_size := x_output_batch_size\<rparr>) = cli_fields c"
  "cli_fields (c\<lparr>output_batch_interval_seconds := x_output_batch_interval_seconds\<rparr>) = cli_fields c"
  "cli_fields (c\<lparr>output_retry_max_attempts := x_output_retry_max_attempts\<rparr>) = cli_fields c"
  "cli_fields (c\<lparr>output_retry_backoff_seconds := x_output_retry_backoff_seconds\<rparr>) = cli_fields c"
  "cli_fields (c\<lparr>show_cpu := x_show_cpu\<rparr>) = cli_fields c"
  "cli_fields (c\<lparr>show_memory := x_show_memory\<rparr>) = cli_fields c"
  "cli_fields (c\<lparr>show_disk := x_show_disk\<rparr>) = cli_fields c"
  "cli_fields (c\<lparr>show_network := x_show_network\<rparr>) = cli_fields c"
  "cli_fields (c\<lparr>show_processes := x_show_processes\<rparr>) = cli_fields c"
  "cli_fields (c\<lparr>config_version := x_config_version\<rparr>) = cli_fields c"
  "cli_fields (c\<lparr>output_type := x_output_type\<rparr>) = cli_fields c"
  "cli_fields (c\<lparr>log_level := x_log_level\<rparr>) = cli_fields c"
  "cli_fields (c\<lparr>log_destination := x_log_destination\<rparr>) = cli_fields c"
  by (simp_all add: cli_fields_def)

end
