(* ===== verification/Config_Loader.thy ===== *)
theory Config_Loader
  imports Config_State
begin

text \<open>
  The configuration loader of \<^verbatim>\<open>src/config.c\<close>: a line-oriented subset of YAML with one
  level of nesting. \<open>load_config_file\<close> reads lines with a 1024-byte buffer; \<open>split_line\<close>
  is the lexical part of its loop body, \<open>apply_line\<close> the rest, and the four setters are
  \<^verbatim>\<open>set_scalar_top_level\<close>, \<^verbatim>\<open>set_output_key\<close>, \<^verbatim>\<open>set_collect_key\<close> and
  \<^verbatim>\<open>set_log_key\<close>. An error is a value of \<open>config_error\<close>, one constructor per
  \<^verbatim>\<open>set_error\<close> call; \<open>error_message\<close> gives its text. \<open>validate_config\<close> is the check
  of \<^verbatim>\<open>--validate-config\<close>.
\<close>

section \<open>Errors\<close>

datatype config_error =
    NullConfig
  | OpenFailed cstring
  | UnsupportedVersion nat cstring
  | BadPollInterval nat cstring
  | UnknownKey nat cstring
  | BadOutputType nat cstring
  | BadBatchSize nat cstring
  | BadBatchInterval nat cstring
  | BadRetryMax nat cstring
  | BadRetryBackoff nat cstring
  | UnknownOutputKey nat cstring
  | BadCollectValue nat cstring cstring
  | UnknownCollectKey nat cstring
  | BadLogLevel nat cstring
  | BadLogDestination nat cstring
  | UnknownLogKey nat cstring
  | BadIndent nat nat
  | NoColon nat
  | NoActiveSection nat cstring
  | VersionMismatch cstring
  | IntervalNotPositive
  | OutputTypeRequired
  | OutputPathRequired
  | OutputUrlRequired
  | BatchSizeNotPositive
  | BatchIntervalNotPositive
  | InvalidLogLevel cstring
  | InvalidLogDestination cstring

definition quoted :: "cstring \<Rightarrow> cstring" where
  "quoted s = CHR 0x27 # s @ [CHR 0x27]"

definition at_line :: "nat \<Rightarrow> cstring \<Rightarrow> cstring" where
  "at_line n s = ''config error at line '' @ show_nat n @ '': '' @ s"

fun error_message :: "config_error \<Rightarrow> cstring" where
  "error_message NullConfig = ''config error: null config''"
| "error_message (OpenFailed p) = ''config error: failed to open '' @ quoted p"
| "error_message (UnsupportedVersion n v) = at_line n (''unsupported config_version '' @ quoted v)"
| "error_message (BadPollInterval n v) =
     at_line n (''poll_interval_seconds must be a positive integer, got '' @ quoted v)"
| "error_message (UnknownKey n k) = at_line n (''unknown key '' @ quoted k)"
| "error_message (BadOutputType n v) =
     at_line n (''output.type must be stdout, file, or http_post, got '' @ quoted v)"
| "error_message (BadBatchSize n v) =
     at_line n (''batch_size must be a positive integer, got '' @ quoted v)"
| "error_message (BadBatchInterval n v) =
     at_line n (''batch_interval_seconds must be a positive integer, got '' @ quoted v)"
| "error_message (BadRetryMax n v) =
     at_line n (''retry_max_attempts must be a non-negative integer, got '' @ quoted v)"
| "error_message (BadRetryBackoff n v) =
     at_line n (''retry_backoff_seconds must be a non-negative integer, got '' @ quoted v)"
| "error_message (UnknownOutputKey n k) = at_line n (''unknown output key '' @ quoted k)"
| "error_message (BadCollectValue n k v) =
     at_line n (''collect.'' @ k @ '' must be true or false, got '' @ quoted v)"
| "error_message (UnknownCollectKey n k) = at_line n (''unknown collect key '' @ quoted k)"
| "error_message (BadLogLevel n v) =
     at_line n (''log.level must be debug, info, warn, or error, got '' @ quoted v)"
| "error_message (BadLogDestination n v) =
     at_line n (''log.destination must be stderr or file, got '' @ quoted v)"
| "error_message (UnknownLogKey n k) = at_line n (''unknown log key '' @ quoted k)"
| "error_message (BadIndent n i) =
     at_line n (''expected 0 or 2 leading spaces, got '' @ show_nat i)"
| "error_message (NoColon n) = at_line n ''expected key: value''"
| "error_message (NoActiveSection n k) =
     at_line n (''nested key '' @ quoted k @ '' has no active section'')"
| "error_message (VersionMismatch v) =
     ''config error: config_version must be '' @ quoted ''1.0'' @ '', got '' @ quoted v"
| "error_message IntervalNotPositive =
     ''config error: poll_interval_seconds must be a positive integer''"
| "error_message OutputTypeRequired = ''config error: output.type is required''"
| "error_message OutputPathRequired = ''config error: output.path required for file output''"
| "error_message OutputUrlRequired = ''config error: output.url required for http_post''"
| "error_message BatchSizeNotPositive =
     ''config error: output.batch_size must be positive for http_post''"
| "error_message BatchIntervalNotPositive =
     ''config error: output.batch_interval_seconds must be positive for http_post''"
| "error_message (InvalidLogLevel v) = ''config error: invalid log.level '' @ quoted v"
| "error_message (InvalidLogDestination v) = ''config error: invalid log.destination '' @ quoted v"

text \<open>\<^verbatim>\<open>set_error\<close> formats into a 512-byte stack buffer and copies that, or, when it is too
  small, formats into heap memory of the exact size. \<open>malloc_ok\<close> and \<open>strdup_ok\<close> say whether the
  two allocations succeed; \<open>None\<close> is the NULL that \<^verbatim>\<open>*err\<close> keeps when \<^verbatim>\<open>strdup\<close> fails. The
  first branch of the function, for a failing \<^verbatim>\<open>vsnprintf\<close>, is not taken by the formats of the
  file, which hold only \<^verbatim>\<open>%s\<close> and \<^verbatim>\<open>%d\<close>.\<close>

definition strdup :: "bool \<Rightarrow> cstring \<Rightarrow> cstring option" where
  "strdup ok s = (if ok then Some s else None)"

definition set_error :: "bool \<Rightarrow> bool \<Rightarrow> config_error \<Rightarrow> cstring option" where
  "set_error malloc_ok strdup_ok e =
     (let m = error_message e
      in if length m < 512 then strdup strdup_ok m
         else if \<not> malloc_ok then strdup strdup_ok ''config error: out of memory''
         else Some m)"

section \<open>Lexical helpers\<close>

definition blank :: "char \<Rightarrow> bool" where
  "blank c \<longleftrightarrow> c = SPC \<or> c = TAB \<or> c = CR \<or> c = LF"

definition ltrim :: "cstring \<Rightarrow> cstring" where
  "ltrim s = dropWhile blank s"

fun rtrim :: "cstring \<Rightarrow> cstring" where
  "rtrim s = (if s \<noteq> [] \<and> blank (last s) then rtrim (butlast s) else s)"

declare rtrim.simps [simp del]

text \<open>The loop of \<^verbatim>\<open>strip_inline_comment\<close>; \<open>prev\<close> is \<^verbatim>\<open>cursor[-1]\<close>, if there is one.\<close>

fun cut_comment :: "bool \<Rightarrow> char option \<Rightarrow> cstring \<Rightarrow> cstring" where
  "cut_comment in_quotes prev [] = []"
| "cut_comment in_quotes prev (c # s) =
     (if c = DQUOTE then c # cut_comment (\<not> in_quotes) (Some c) s
      else if \<not> in_quotes \<and> c = CHR ''#'' \<and> (case prev of None \<Rightarrow> True | Some p \<Rightarrow> isspace p) then []
      else c # cut_comment in_quotes (Some c) s)"

definition strip_inline_comment :: "cstring \<Rightarrow> cstring" where
  "strip_inline_comment s = rtrim (cut_comment False None s)"

definition unquote :: "cstring \<Rightarrow> cstring" where
  "unquote s =
     (if length s \<ge> 2 \<and> hd s = DQUOTE \<and> last s = DQUOTE then take (length s - 2) (drop 1 s) else s)"

definition parse_bool_value :: "cstring \<Rightarrow> bool option" where
  "parse_bool_value s =
     (if s = ''true'' then Some True else if s = ''false'' then Some False else None)"

definition parse_int_value :: "cstring \<Rightarrow> int \<Rightarrow> int \<Rightarrow> int option" where
  "parse_int_value s lo hi =
     (case strtol s of
        None \<Rightarrow> None
      | Some (v, rest, erange) \<Rightarrow>
          if erange \<or> rest \<noteq> [] \<or> v < lo \<or> v > hi then None else Some v)"

section \<open>Setters\<close>

type_synonym cfg_result = "config_error + syswatch_config"

definition set_scalar_top_level ::
  "syswatch_config \<Rightarrow> cstring \<Rightarrow> cstring \<Rightarrow> nat \<Rightarrow> cfg_result" where
  "set_scalar_top_level cfg key value line_no =
     (if key = ''config_version'' then
        if value \<noteq> ''1.0'' then Inl (UnsupportedVersion line_no value)
        else Inr (cfg\<lparr>config_version := copy_trunc 16 value\<rparr>)
      else if key = ''poll_interval_seconds'' then
        (case parse_int_value value 1 86400 of
           None \<Rightarrow> Inl (BadPollInterval line_no value)
         | Some v \<Rightarrow> Inr (cfg\<lparr>interval_sec := v\<rparr>))
      else if key = ''host_override'' then Inr (cfg\<lparr>host_override := copy_trunc 128 value\<rparr>)
      else Inl (UnknownKey line_no key))"

definition set_output_key ::
  "syswatch_config \<Rightarrow> cstring \<Rightarrow> cstring \<Rightarrow> nat \<Rightarrow> cfg_result" where
  "set_output_key cfg key value line_no =
     (if key = ''type'' then
        if value \<noteq> ''stdout'' \<and> value \<noteq> ''file'' \<and> value \<noteq> ''http_post''
        then Inl (BadOutputType line_no value)
        else Inr (cfg\<lparr>output_type := copy_trunc 16 value\<rparr>)
      else if key = ''url'' then Inr (cfg\<lparr>output_url := copy_trunc 256 value\<rparr>)
      else if key = ''path'' then Inr (cfg\<lparr>output_path := copy_trunc 256 value\<rparr>)
      else if key = ''batch_size'' then
        (case parse_int_value value 1 100000 of
           None \<Rightarrow> Inl (BadBatchSize line_no value)
         | Some v \<Rightarrow> Inr (cfg\<lparr>output_batch_size := v\<rparr>))
      else if key = ''batch_interval_seconds'' then
        (case parse_int_value value 1 86400 of
           None \<Rightarrow> Inl (BadBatchInterval line_no value)
         | Some v \<Rightarrow> Inr (cfg\<lparr>output_batch_interval_seconds := v\<rparr>))
      else if key = ''retry_max_attempts'' then
        (case parse_int_value value 0 100 of
           None \<Rightarrow> Inl (BadRetryMax line_no value)
         | Some v \<Rightarrow> Inr (cfg\<lparr>output_retry_max_attempts := v\<rparr>))
      else if key = ''retry_backoff_seconds'' then
        (case parse_int_value value 0 3600 of
           None \<Rightarrow> Inl (BadRetryBackoff line_no value)
         | Some v \<Rightarrow> Inr (cfg\<lparr>output_retry_backoff_seconds := v\<rparr>))
      else if key = ''auth_header'' then Inr (cfg\<lparr>output_auth_header := copy_trunc 256 value\<rparr>)
      else Inl (UnknownOutputKey line_no key))"

definition set_collect_key ::
  "syswatch_config \<Rightarrow> cstring \<Rightarrow> cstring \<Rightarrow> nat \<Rightarrow> cfg_result" where
  "set_collect_key cfg key value line_no =
     (case parse_bool_value value of
        None \<Rightarrow> Inl (BadCollectValue line_no key value)
      | Some flag \<Rightarrow>
          if key = ''cpu'' then Inr (cfg\<lparr>show_cpu := flag\<rparr>)
          else if key = ''memory'' then Inr (cfg\<lparr>show_memory := flag\<rparr>)
          else if key = ''disk'' then Inr (cfg\<lparr>show_disk := flag\<rparr>)
          else if key = ''network'' then Inr (cfg\<lparr>show_network := flag\<rparr>)
          else if key = ''load'' then Inr cfg
          else if key = ''processes'' then Inr (cfg\<lparr>show_processes := flag\<rparr>)
          else Inl (UnknownCollectKey line_no key))"

definition set_log_key ::
  "syswatch_config \<Rightarrow> cstring \<Rightarrow> cstring \<Rightarrow> nat \<Rightarrow> cfg_result" where
  "set_log_key cfg key value line_no =
     (if key = ''level'' then
        if value \<noteq> ''debug'' \<and> value \<noteq> ''info'' \<and> value \<noteq> ''warn'' \<and> value \<noteq> ''error''
        then Inl (BadLogLevel line_no value)
        else Inr (cfg\<lparr>log_level := copy_trunc 16 value\<rparr>)
      else if key = ''destination'' then
        if value \<noteq> ''stderr'' \<and> value \<noteq> ''file'' then Inl (BadLogDestination line_no value)
        else Inr (cfg\<lparr>log_destination := copy_trunc 16 value\<rparr>)
      else if key = ''path'' then Inr (cfg\<lparr>log_path := copy_trunc 256 value\<rparr>)
      else Inl (UnknownLogKey line_no key))"

section \<open>The loader\<close>

datatype config_section = SECTION_NONE | SECTION_OUTPUT | SECTION_COLLECT | SECTION_LOG

text \<open>The lexical part of the loop body: nothing for a line without content, else the
  indentation, the key and the value.\<close>

definition split_line :: "nat \<Rightarrow> cstring \<Rightarrow> config_error + (nat \<times> cstring \<times> cstring) option" where
  "split_line line_no line =
     (case ltrim line of
        [] \<Rightarrow> Inr None
      | c # _ \<Rightarrow>
          if c = LF \<or> c = CHR ''#'' then Inr None
          else
            let indent = length (takeWhile (\<lambda>c. c = SPC) line)
            in if indent \<noteq> 0 \<and> indent \<noteq> 2 then Inl (BadIndent line_no indent)
               else
                 let cur = rtrim (ltrim (strip_inline_comment (drop indent line)))
                 in if cur = [] then Inr None
                    else if CHR '':'' \<notin> set cur then Inl (NoColon line_no)
                    else
                      let key = rtrim (ltrim (takeWhile (\<lambda>c. c \<noteq> CHR '':'') cur));
                          val = rtrim (ltrim (tl (dropWhile (\<lambda>c. c \<noteq> CHR '':'') cur)))
                      in Inr (Some (indent, unquote key, unquote val)))"

definition apply_line ::
  "nat \<Rightarrow> nat \<times> cstring \<times> cstring \<Rightarrow> config_section \<times> syswatch_config
     \<Rightarrow> config_error + config_section \<times> syswatch_config" where
  "apply_line line_no kv st =
     (case (kv, st) of ((indent, key, val), (sect, cfg)) \<Rightarrow>
        if indent = 0 then
          if val = [] \<and> key = ''output'' then Inr (SECTION_OUTPUT, cfg)
          else if val = [] \<and> key = ''collect'' then Inr (SECTION_COLLECT, cfg)
          else if val = [] \<and> key = ''log'' then Inr (SECTION_LOG, cfg)
          else map_sum id (Pair SECTION_NONE) (set_scalar_top_level cfg key val line_no)
        else
          (case sect of
             SECTION_NONE \<Rightarrow> Inl (NoActiveSection line_no key)
           | SECTION_OUTPUT \<Rightarrow> map_sum id (Pair sect) (set_output_key cfg key val line_no)
           | SECTION_COLLECT \<Rightarrow> map_sum id (Pair sect) (set_collect_key cfg key val line_no)
           | SECTION_LOG \<Rightarrow> map_sum id (Pair sect) (set_log_key cfg key val line_no)))"

definition load_line ::
  "nat \<Rightarrow> cstring \<Rightarrow> config_section \<times> syswatch_config
     \<Rightarrow> config_error + config_section \<times> syswatch_config" where
  "load_line line_no line st =
     (case split_line line_no line of
        Inl e \<Rightarrow> Inl e
      | Inr None \<Rightarrow> Inr st
      | Inr (Some kv) \<Rightarrow> apply_line line_no kv st)"

text \<open>The loop. On an error the record keeps what the earlier lines wrote.\<close>

fun load_lines ::
  "nat \<Rightarrow> cstring list \<Rightarrow> config_section \<times> syswatch_config
     \<Rightarrow> (config_section \<times> syswatch_config) \<times> config_error option" where
  "load_lines line_no [] st = (st, None)"
| "load_lines line_no (l # ls) st =
     (case load_line (line_no + 1) l st of
        Inl e \<Rightarrow> (st, Some e)
      | Inr st' \<Rightarrow> load_lines (line_no + 1) ls st')"

text \<open>\<open>open_file\<close> gives the contents of a file that can be opened, \<open>stdin\<close> those of the
  standard input. A NULL argument is \<open>None\<close>.\<close>

definition load_config_file ::
  "(cstring \<Rightarrow> char list option) \<Rightarrow> char list \<Rightarrow> cstring option \<Rightarrow> syswatch_config option
     \<Rightarrow> syswatch_config option \<times> config_error option" where
  "load_config_file open_file stdin path cfgp =
     (case cfgp of
        None \<Rightarrow> (None, Some NullConfig)
      | Some cfg \<Rightarrow>
          (case (if path = None \<or> path = Some ''-'' then Some stdin else open_file (the path)) of
             None \<Rightarrow> (Some cfg, Some (OpenFailed (the path)))
           | Some content \<Rightarrow>
               let ((_, cfg'), err) = load_lines 0 (fgets_lines 1024 content) (SECTION_NONE, cfg)
               in (Some cfg', err)))"

section \<open>Validation\<close>

definition validate_config :: "syswatch_config option \<Rightarrow> config_error option" where
  "validate_config cfgp =
     (case cfgp of
        None \<Rightarrow> Some NullConfig
      | Some c \<Rightarrow>
          if config_version c \<noteq> ''1.0'' then Some (VersionMismatch (config_version c))
          else if interval_sec c \<le> 0 then Some IntervalNotPositive
          else if output_type c = [] then Some OutputTypeRequired
          else if output_type c = ''file'' \<and> output_path c = [] then Some OutputPathRequired
          else if output_type c = ''http_post'' \<and> output_url c = [] then Some OutputUrlRequired
          else if output_type c = ''http_post'' \<and> output_batch_size c \<le> 0
            then Some BatchSizeNotPositive
          else if output_type c = ''http_post'' \<and> output_batch_interval_seconds c \<le> 0
            then Some BatchIntervalNotPositive
          else if log_level c \<noteq> [] \<and> log_level c \<noteq> ''debug'' \<and> log_level c \<noteq> ''info'' \<and>
            log_level c \<noteq> ''warn'' \<and> log_level c \<noteq> ''error''
            then Some (InvalidLogLevel (log_level c))
          else if log_destination c \<noteq> [] \<and> log_destination c \<noteq> ''stderr'' \<and>
            log_destination c \<noteq> ''file'' then Some (InvalidLogDestination (log_destination c))
          else None)"

section \<open>Values\<close>

lemma parse_int_value_bounds: "parse_int_value s lo hi = Some v \<Longrightarrow> lo \<le> v \<and> v \<le> hi"
  by (auto simp: parse_int_value_def split: option.splits if_splits)

lemma parse_int_value_show_int:
  assumes "LONG_MIN \<le> lo" "hi \<le> LONG_MAX"
  shows "parse_int_value (show_int i) lo hi = (if lo \<le> i \<and> i \<le> hi then Some i else None)"
  using assms strtol_show_int [of "[]" "[]" i] by (simp add: parse_int_value_def)

lemma long_range [simp]:
  "LONG_MIN \<le> 0" "LONG_MIN \<le> 1" "86400 \<le> LONG_MAX" "100000 \<le> LONG_MAX" "100 \<le> LONG_MAX"
  "3600 \<le> LONG_MAX" "1000000 \<le> LONG_MAX" "1000 \<le> LONG_MAX"
  by (simp_all add: LONG_MIN_def LONG_MAX_def)

section \<open>The contract of the setters\<close>

text \<open>A setter either reports an error at the current line or writes a well-formed value and
  leaves the fields of the command line alone.\<close>

fun error_line :: "config_error \<Rightarrow> nat option" where
  "error_line (UnsupportedVersion n v) = Some n"
| "error_line (BadPollInterval n v) = Some n"
| "error_line (UnknownKey n k) = Some n"
| "error_line (BadOutputType n v) = Some n"
| "error_line (BadBatchSize n v) = Some n"
| "error_line (BadBatchInterval n v) = Some n"
| "error_line (BadRetryMax n v) = Some n"
| "error_line (BadRetryBackoff n v) = Some n"
| "error_line (UnknownOutputKey n k) = Some n"
| "error_line (BadCollectValue n k v) = Some n"
| "error_line (UnknownCollectKey n k) = Some n"
| "error_line (BadLogLevel n v) = Some n"
| "error_line (BadLogDestination n v) = Some n"
| "error_line (UnknownLogKey n k) = Some n"
| "error_line (BadIndent n i) = Some n"
| "error_line (NoColon n) = Some n"
| "error_line (NoActiveSection n k) = Some n"
| "error_line e = None"

text \<open>The outcome without the error: it does not depend on the line number.\<close>

definition ok_of :: "'e + 'a \<Rightarrow> 'a option" where
  "ok_of r = (case r of Inl _ \<Rightarrow> None | Inr a \<Rightarrow> Some a)"

lemma ok_of_simps:
  "ok_of (Inl e) = None" "ok_of (Inr a) = Some a"
  "ok_of (if b then r1 else r2) = (if b then ok_of r1 else ok_of r2)"
  "ok_of (case x of None \<Rightarrow> r1 | Some v \<Rightarrow> f v) = (case x of None \<Rightarrow> ok_of r1 | Some v \<Rightarrow> ok_of (f v))"
  "ok_of (map_sum g h r) = map_option h (ok_of r)"
  by (auto simp: ok_of_def split: option.split sum.split)

lemma ok_of_Some: "ok_of r = Some a \<longleftrightarrow> r = Inr a"
  by (auto simp: ok_of_def split: sum.split)

locale config_setter =
  fixes setter :: "syswatch_config \<Rightarrow> cstring \<Rightarrow> cstring \<Rightarrow> nat \<Rightarrow> cfg_result"
  assumes setter_wf: "setter cfg key val n = Inr cfg' \<Longrightarrow> cfg_wf cfg \<Longrightarrow> cfg_wf cfg'"
    and setter_cli: "setter cfg key val n = Inr cfg' \<Longrightarrow> cli_fields cfg' = cli_fields cfg"
    and setter_line: "setter cfg key val n = Inl e \<Longrightarrow> error_line e = Some n"
    and setter_number: "ok_of (setter cfg key val n) = ok_of (setter cfg key val m)"
begin

lemma in_section:
  "map_sum id (Pair sect) (setter cfg key val n) = Inr (sect', cfg') \<Longrightarrow>
     sect' = sect \<and> (cfg_wf cfg \<longrightarrow> cfg_wf cfg') \<and> cli_fields cfg' = cli_fields cfg"
  by (cases "setter cfg key val n") (auto dest: setter_wf setter_cli)

lemma in_section_line:
  "map_sum id (Pair sect) (setter cfg key val n) = Inl e \<Longrightarrow> error_line e = Some n"
  by (cases "setter cfg key val n") (auto dest: setter_line)

end

lemma result_cases:
  "(case x of None \<Rightarrow> Inl e | Some v \<Rightarrow> Inr (f v)) = Inr c \<longleftrightarrow> (\<exists>v. x = Some v \<and> c = f v)"
  "(case x of None \<Rightarrow> Inl e | Some v \<Rightarrow> Inr (f v)) = Inl e' \<longleftrightarrow> x = None \<and> e' = e"
  by (auto split: option.splits)

interpretation top_setter: config_setter set_scalar_top_level
proof (unfold_locales, goal_cases)
  case (4 cfg key val n m)
  show ?case by (simp only: set_scalar_top_level_def ok_of_simps)
qed (auto simp: set_scalar_top_level_def result_cases split: if_split_asm
    dest: parse_int_value_bounds intro!: wf_intros)

interpretation output_setter: config_setter set_output_key
proof (unfold_locales, goal_cases)
  case (4 cfg key val n m)
  show ?case by (simp only: set_output_key_def ok_of_simps)
qed (auto simp: set_output_key_def choice_defs result_cases split: if_split_asm
    dest: parse_int_value_bounds intro!: wf_intros)

interpretation collect_setter: config_setter set_collect_key
proof (unfold_locales, goal_cases)
  case (4 cfg key val n m)
  show ?case by (simp only: set_collect_key_def ok_of_simps)
qed (auto simp: set_collect_key_def split: if_split_asm option.split_asm)

interpretation log_setter: config_setter set_log_key
proof (unfold_locales, goal_cases)
  case (4 cfg key val n m)
  show ?case by (simp only: set_log_key_def ok_of_simps)
qed (auto simp: set_log_key_def choice_defs split: if_split_asm intro!: wf_intros)

lemmas setter_facts =
  top_setter.in_section output_setter.in_section collect_setter.in_section log_setter.in_section

lemmas setter_lines =
  top_setter.in_section_line output_setter.in_section_line collect_setter.in_section_line
  log_setter.in_section_line

lemmas setter_numbers =
  top_setter.setter_number output_setter.setter_number collect_setter.setter_number
  log_setter.setter_number

lemma apply_line_ok:
  "apply_line n kv (sect, cfg) = Inr (sect', cfg') \<Longrightarrow>
     (cfg_wf cfg \<longrightarrow> cfg_wf cfg') \<and> cli_fields cfg' = cli_fields cfg"
  by (cases kv; cases sect)
    (auto simp: apply_line_def split: if_splits dest: setter_facts)

lemma apply_line_error: "apply_line n kv st = Inl e \<Longrightarrow> error_line e = Some n"
  by (cases kv; cases st; cases "fst st")
    (auto simp: apply_line_def split: if_splits dest: setter_lines)

lemma split_line_error: "split_line n l = Inl e \<Longrightarrow> error_line e = Some n"
  by (auto simp: split_line_def Let_def split: list.splits if_splits)

lemma load_line_ok:
  "load_line n l (sect, cfg) = Inr (sect', cfg') \<Longrightarrow>
     (cfg_wf cfg \<longrightarrow> cfg_wf cfg') \<and> cli_fields cfg' = cli_fields cfg"
  by (auto simp: load_line_def split: sum.splits option.splits dest: apply_line_ok)

lemma load_line_error: "load_line n l st = Inl e \<Longrightarrow> error_line e = Some n"
  by (auto simp: load_line_def split: sum.splits option.splits
      dest: split_line_error apply_line_error)

lemma load_lines_ok:
  "load_lines n ls (sect, cfg) = ((sect', cfg'), err) \<Longrightarrow>
     (cfg_wf cfg \<longrightarrow> cfg_wf cfg') \<and> cli_fields cfg' = cli_fields cfg"
proof (induction ls arbitrary: n sect cfg)
  case Nil
  then show ?case by simp
next
  case (Cons l ls)
  show ?case
  proof (cases "load_line (n + 1) l (sect, cfg)")
    case (Inl e)
    with Cons.prems show ?thesis by simp
  next
    case (Inr st)
    obtain s1 c1 where st: "st = (s1, c1)" by fastforce
    with Inr Cons.prems have "load_lines (n + 1) ls (s1, c1) = ((sect', cfg'), err)" by simp
    from Cons.IH [OF this] load_line_ok [OF Inr [unfolded st]] show ?thesis by auto
  qed
qed

lemma load_lines_append:
  "load_lines n (ls1 @ ls2) st =
     (case load_lines n ls1 st of
        (st', Some e) \<Rightarrow> (st', Some e)
      | (st', None) \<Rightarrow> load_lines (n + length ls1) ls2 st')"
  by (induction ls1 arbitrary: n st) (auto split: sum.split)

lemma load_config_file_ok:
  assumes "load_config_file open_file stdin path (Some cfg) = (Some cfg', err)"
  shows "(cfg_wf cfg \<longrightarrow> cfg_wf cfg') \<and> cli_fields cfg' = cli_fields cfg"
proof (cases "if path = None \<or> path = Some ''-'' then Some stdin else open_file (the path)")
  case None
  with assms show ?thesis by (simp add: load_config_file_def)
next
  case (Some content)
  obtain sect c2 e where l: "load_lines 0 (fgets_lines 1024 content) (SECTION_NONE, cfg) = ((sect, c2), e)"
    by (metis prod.exhaust)
  then have "cfg' = c2" using assms Some by (simp add: load_config_file_def)
  with load_lines_ok [OF l] show ?thesis by simp
qed

section \<open>Properties of the loader\<close>

text \<open>C21: Loading any file, whether it succeeds or stops at an error, keeps the configuration
  well-formed (every number in its documented range, every enumerated string one of its choices,
  every string shorter than its buffer) and never touches the fields the command line owns.\<close>

theorem load_config_keeps_wf:
  assumes "load_config_file open_file stdin path (Some cfg) = (Some cfg', err)" "cfg_wf cfg"
  shows "cfg_wf cfg' \<and> cli_fields cfg' = cli_fields cfg"
  using load_config_file_ok [OF assms(1)] assms(2) by blast

text \<open>C23: An error the loader reports carries the number of the first line that fails, and the
  configuration it leaves is the one the lines before that line produce.\<close>

theorem load_lines_first_error:
  assumes "load_lines 0 ls st = (st', Some e)"
  shows "\<exists>k < length ls. error_line e = Some (k + 1) \<and> load_lines 0 (take k ls) st = (st', None) \<and>
    load_line (k + 1) (ls ! k) st' = Inl e"
proof -
  have "\<exists>k < length ls. error_line e = Some (n + k + 1) \<and> load_lines n (take k ls) st = (st', None) \<and>
      load_line (n + k + 1) (ls ! k) st' = Inl e"
    if "load_lines n ls st = (st', Some e)" for n
    using that
  proof (induction ls arbitrary: n st)
    case Nil
    then show ?case by simp
  next
    case (Cons l ls)
    show ?case
    proof (cases "load_line (n + 1) l st")
      case (Inl e')
      with Cons.prems load_line_error [OF Inl] show ?thesis by (intro exI [of _ 0]) simp
    next
      case (Inr st1)
      with Cons.prems have "load_lines (n + 1) ls st1 = (st', Some e)" by simp
      from Cons.IH [OF this] obtain k where "k < length ls"
        "error_line e = Some (n + 1 + k + 1)" "load_lines (n + 1) (take k ls) st1 = (st', None)"
        "load_line (n + 1 + k + 1) (ls ! k) st' = Inl e" by blast
      with Inr show ?thesis by (intro exI [of _ "Suc k"]) simp
    qed
  qed
  from this [OF assms] show ?thesis by simp
qed

lemma validate_wf:
  assumes "cfg_wf cfg"
  shows "validate_config (Some cfg) =
    (if output_type cfg = ''file'' \<and> output_path cfg = [] then Some OutputPathRequired
     else if output_type cfg = ''http_post'' \<and> output_url cfg = [] then Some OutputUrlRequired
     else if output_type cfg = ''http_post'' \<and> output_batch_size cfg = 0 then Some BatchSizeNotPositive
     else if output_type cfg = ''http_post'' \<and> output_batch_interval_seconds cfg = 0
       then Some BatchIntervalNotPositive
     else None)"
proof -
  have r: "config_version cfg = ''1.0''" "0 < interval_sec cfg" "output_type_ok (output_type cfg)"
    "log_level_ok (log_level cfg)" "log_destination_ok (log_destination cfg)"
    "0 \<le> output_batch_size cfg" "0 \<le> output_batch_interval_seconds cfg"
    using assms by (simp_all add: cfg_wf_defs)
  then have "output_type cfg \<noteq> []" by (auto simp: output_type_ok_def)
  moreover have "\<not> (log_level cfg \<noteq> [] \<and> log_level cfg \<noteq> ''debug'' \<and> log_level cfg \<noteq> ''info'' \<and>
      log_level cfg \<noteq> ''warn'' \<and> log_level cfg \<noteq> ''error'')"
    "\<not> (log_destination cfg \<noteq> [] \<and> log_destination cfg \<noteq> ''stderr'' \<and> log_destination cfg \<noteq> ''file'')"
    using r(4,5) unfolding choice_defs by argo+
  moreover have "\<not> interval_sec cfg \<le> 0" using r(2) by simp
  moreover have "output_batch_size cfg \<le> 0 \<longleftrightarrow> output_batch_size cfg = 0"
    "output_batch_interval_seconds cfg \<le> 0 \<longleftrightarrow> output_batch_interval_seconds cfg = 0"
    using r by auto
  ultimately show ?thesis
    using r(1,2) unfolding validate_config_def by (simp only: option.case simp_thms if_False)
qed

text \<open>C24: After loading from the defaults, validate_config can only fail on what a file leaves
  unset: a missing path for file output, or a missing URL, batch size or batch interval for
  http_post. The other six checks never fire.\<close>

theorem validate_after_load:
  assumes "load_config_file open_file stdin path (Some init_default_config) = (Some cfg, None)"
  shows "validate_config (Some cfg) =
    (if output_type cfg = ''file'' \<and> output_path cfg = [] then Some OutputPathRequired
     else if output_type cfg = ''http_post'' \<and> output_url cfg = [] then Some OutputUrlRequired
     else if output_type cfg = ''http_post'' \<and> output_batch_size cfg = 0 then Some BatchSizeNotPositive
     else if output_type cfg = ''http_post'' \<and> output_batch_interval_seconds cfg = 0
       then Some BatchIntervalNotPositive
     else None)"
  using validate_wf load_config_file_ok [OF assms] cfg_wf_default by blast

section \<open>Lines the loader ignores\<close>

text \<open>A line of white space only, or whose first other character starts a comment.\<close>

definition ignorable :: "cstring \<Rightarrow> bool" where
  "ignorable l \<longleftrightarrow> (case ltrim l of [] \<Rightarrow> True | c # _ \<Rightarrow> c = CHR ''#'')"

lemma split_line_ignorable: "ignorable l \<Longrightarrow> split_line n l = Inr None"
  by (auto simp: ignorable_def split_line_def split: list.splits)

text \<open>Line numbers only show in errors.\<close>

lemma apply_line_number: "ok_of (apply_line n kv st) = ok_of (apply_line m kv st)"
  by (cases kv; cases st; cases "fst st")
    (simp_all add: apply_line_def ok_of_simps setter_numbers [of _ _ _ n m])

lemma split_line_number: "split_line n l = Inr r \<Longrightarrow> split_line m l = Inr r"
  by (auto simp: split_line_def Let_def split: list.splits if_split_asm)

lemma load_line_number: "load_line n l st = Inr st' \<Longrightarrow> load_line m l st = Inr st'"
proof (cases "split_line n l")
  case (Inr r)
  assume "load_line n l st = Inr st'"
  moreover have "apply_line n kv st = Inr st' \<Longrightarrow> apply_line m kv st = Inr st'" for kv
    using apply_line_number [of n kv st m] by (metis ok_of_Some)
  ultimately show ?thesis
    using Inr split_line_number [OF Inr, of m] by (auto simp: load_line_def split: option.splits)
qed (simp add: load_line_def)

lemma load_lines_number: "load_lines n ls st = (st', None) \<Longrightarrow> load_lines m ls st = (st', None)"
proof (induction ls arbitrary: n m st)
  case (Cons l ls)
  then obtain st1 where "load_line (n + 1) l st = Inr st1" "load_lines (n + 1) ls st1 = (st', None)"
    by (auto split: sum.splits)
  with load_line_number [of "n + 1" l st st1 "m + 1"] Cons.IH [of "n + 1" st1 "m + 1"]
  show ?case by simp
qed simp

text \<open>Comment lines and blank lines can be inserted anywhere in a configuration that loads:
  it still loads, with the same result.\<close>

theorem load_lines_comments:
  assumes "load_lines n (ls1 @ ls2) st = (st', None)" "list_all ignorable cs"
  shows "load_lines n (ls1 @ cs @ ls2) st = (st', None)"
proof -
  have skip: "load_lines k (cs @ ls2) st0 = (st', None)"
    if "load_lines k ls2 st0 = (st', None)" for k st0
    using that assms(2)
    by (induction cs arbitrary: k)
      (auto simp: load_line_def split_line_ignorable intro: load_lines_number)
  obtain st1 where "load_lines n ls1 st = (st1, None)" "load_lines (n + length ls1) ls2 st1 = (st', None)"
    using assms(1) by (auto simp: load_lines_append split: prod.splits option.splits)
  then show ?thesis using skip by (simp add: load_lines_append)
qed

section \<open>Round trip\<close>

text \<open>A configuration file for a record, as the example file of the repository is laid out:
  every string quoted, two spaces in front of the keys of a section.\<close>

definition quote_val :: "cstring \<Rightarrow> cstring" where
  "quote_val s = DQUOTE # s @ [DQUOTE]"

definition show_bool :: "bool \<Rightarrow> cstring" where
  "show_bool b = (if b then ''true'' else ''false'')"

definition config_line :: "nat \<Rightarrow> cstring \<Rightarrow> cstring \<Rightarrow> cstring" where
  "config_line indent key tx = replicate indent SPC @ key @ '':'' @ SPC # tx @ [LF]"

definition section_line :: "cstring \<Rightarrow> cstring" where
  "section_line key = key @ '':'' @ [LF]"

definition render_lines :: "syswatch_config \<Rightarrow> cstring list" where
  "render_lines c =
     [config_line 0 ''config_version'' (quote_val (config_version c)),
      config_line 0 ''poll_interval_seconds'' (show_int (interval_sec c)),
      config_line 0 ''host_override'' (quote_val (host_override c)),
      section_line ''collect'',
      config_line 2 ''cpu'' (show_bool (show_cpu c)),
      config_line 2 ''memory'' (show_bool (show_memory c)),
      config_line 2 ''disk'' (show_bool (show_disk c)),
      config_line 2 ''network'' (show_bool (show_network c)),
      config_line 2 ''processes'' (show_bool (show_processes c)),
      section_line ''output'',
      config_line 2 ''type'' (quote_val (output_type c)),
      config_line 2 ''url'' (quote_val (output_url c)),
      config_line 2 ''path'' (quote_val (output_path c)),
      config_line 2 ''auth_header'' (quote_val (output_auth_header c)),
      config_line 2 ''batch_size'' (show_int (output_batch_size c)),
      config_line 2 ''batch_interval_seconds'' (show_int (output_batch_interval_seconds c)),
      config_line 2 ''retry_max_attempts'' (show_int (output_retry_max_attempts c)),
      config_line 2 ''retry_backoff_seconds'' (show_int (output_retry_backoff_seconds c)),
      section_line ''log'',
      config_line 2 ''level'' (quote_val (log_level c)),
      config_line 2 ''destination'' (quote_val (log_destination c)),
      config_line 2 ''path'' (quote_val (log_path c))]"

text \<open>Strings that fit between quotes on a line.\<close>

definition quotable :: "cstring \<Rightarrow> bool" where
  "quotable s \<longleftrightarrow> DQUOTE \<notin> set s \<and> LF \<notin> set s \<and> no_nul s"

definition plain_char :: "char \<Rightarrow> bool" where
  "plain_char c \<longleftrightarrow> \<not> blank c \<and> c \<noteq> DQUOTE \<and> c \<noteq> CHR ''#'' \<and> c \<noteq> CHR '':'' \<and> c \<noteq> NUL"

lemma plain_char_space: "plain_char c \<Longrightarrow> c \<noteq> SPC \<and> c \<noteq> LF \<and> c \<noteq> TAB"
  by (simp add: plain_char_def blank_def)

lemma rtrim_eq: "rtrim s = rev (dropWhile blank (rev s))"
proof (induction s rule: rtrim.induct)
  case (1 s)
  show ?case
  proof (cases "s \<noteq> [] \<and> blank (last s)")
    case True
    then obtain t c where s: "s = t @ [c]" by (cases s rule: rev_cases) auto
    have "rtrim s = rtrim t" using True s by (subst rtrim.simps) simp
    with "1.IH" [OF True] True s show ?thesis by simp
  next
    case False
    then have "rtrim s = s" by (subst rtrim.simps) auto
    with False show ?thesis by (cases s rule: rev_cases) auto
  qed
qed

lemma rtrim_keep: "s \<noteq> [] \<Longrightarrow> \<not> blank (last s) \<Longrightarrow> rtrim s = s"
  by (subst rtrim.simps) simp

lemma rtrim_snoc_blank: "blank b \<Longrightarrow> rtrim (s @ [b]) = rtrim s"
  by (simp add: rtrim_eq)

lemma ltrim_keep: "s \<noteq> [] \<Longrightarrow> \<not> blank (hd s) \<Longrightarrow> ltrim s = s"
  by (cases s) (simp_all add: ltrim_def)

text \<open>Outside quotes a stretch without quote or hash passes unchanged; inside quotes everything
  up to the closing quote does.\<close>

lemma cut_comment_plain:
  "DQUOTE \<notin> set s \<Longrightarrow> CHR ''#'' \<notin> set s \<Longrightarrow> s \<noteq> [] \<Longrightarrow>
     cut_comment q prev (s @ t) = s @ cut_comment q (Some (last s)) t"
proof (induction s arbitrary: prev)
  case (Cons c s)
  then show ?case by (cases s) auto
qed simp

lemma cut_comment_quoted:
  "DQUOTE \<notin> set v \<Longrightarrow> cut_comment True prev (v @ DQUOTE # t) = v @ DQUOTE # cut_comment False (Some DQUOTE) t"
  by (induction v arbitrary: prev) auto

text \<open>Value texts: a quoted string, or a number or a flag as it is.\<close>

definition val_text :: "cstring \<Rightarrow> cstring \<Rightarrow> bool" where
  "val_text tx v \<longleftrightarrow> tx \<noteq> [] \<and> \<not> blank (hd tx) \<and> \<not> blank (last tx) \<and>
     cut_comment False (Some SPC) (tx @ [LF]) = tx @ [LF] \<and> unquote tx = v"

lemma val_text_quoted: "quotable v \<Longrightarrow> val_text (quote_val v) v"
  by (simp add: val_text_def quote_val_def quotable_def blank_def unquote_def
      cut_comment_quoted)

lemma val_text_plain:
  assumes "tx \<noteq> []" "list_all plain_char tx"
  shows "val_text tx tx"
proof -
  have c: "DQUOTE \<notin> set tx" "CHR ''#'' \<notin> set tx" "\<forall>c \<in> set tx. \<not> blank c"
    using assms(2) by (auto simp: list_all_iff plain_char_def)
  moreover have "hd tx \<noteq> DQUOTE" using c(1) assms(1) by (metis list.set_sel(1))
  ultimately show ?thesis
    using assms(1) by (simp add: val_text_def unquote_def cut_comment_plain)
qed

lemma plain_char_digit: "isdigit c \<Longrightarrow> plain_char c"
  by (auto simp: isdigit_def plain_char_def blank_def char_code_def)

lemma val_text_show_int: "val_text (show_int i) (show_int i)"
proof (rule val_text_plain)
  show "show_int i \<noteq> []" by (simp add: show_int_def)
  have "plain_char (CHR ''-'')" by (simp add: plain_char_def blank_def)
  then show "list_all plain_char (show_int i)"
    using isdigit_show_nat by (auto simp: show_int_def list_all_iff intro: plain_char_digit)
qed

lemma val_text_show_bool: "val_text (show_bool b) (show_bool b)"
  by (rule val_text_plain) (auto simp: show_bool_def plain_char_def blank_def)

text \<open>The shared core: a line whose text after the indentation survives the comment cutter.\<close>

lemma split_line_core:
  assumes key: "key \<noteq> []" "list_all plain_char key" and i: "i = 0 \<or> i = 2"
    and cut: "cut_comment False None (key @ '':'' @ tail) = key @ '':'' @ tail"
    and tail: "rtrim (key @ '':'' @ tail) = key @ '':'' @ body"
  shows "split_line n (replicate i SPC @ key @ '':'' @ tail) =
    Inr (Some (i, key, unquote (rtrim (ltrim body))))"
proof -
  obtain k ks where k: "key = k # ks" "plain_char k" using key by (cases key) auto
  then have nb: "\<not> blank k" "k \<noteq> SPC" "k \<noteq> LF" "k \<noteq> CHR ''#''" "k \<noteq> DQUOTE"
    by (simp_all add: plain_char_def blank_def)
  let ?line = "replicate i SPC @ key @ '':'' @ tail"
  have "blank SPC" by (simp add: blank_def)
  have colon: "CHR '':'' \<notin> set key" "\<forall>c \<in> set key. \<not> blank c"
    using key(2) by (auto simp: list_all_iff plain_char_def)
  have lt: "ltrim ?line = key @ '':'' @ tail"
    using nb(1) \<open>blank SPC\<close> by (simp add: ltrim_def k(1) dropWhile_append)
  have ind: "length (takeWhile (\<lambda>c. c = SPC) ?line) = i"
    using takeWhile_stop [of "replicate i SPC" "\<lambda>c. c = SPC" k] nb(2) by (simp add: k(1))
  have dr: "drop i ?line = key @ '':'' @ tail" by simp
  have cur: "rtrim (ltrim (strip_inline_comment (key @ '':'' @ tail))) = key @ '':'' @ body"
  proof -
    have "ltrim (key @ '':'' @ body) = key @ '':'' @ body"
      using nb(1) by (intro ltrim_keep) (simp_all add: k(1))
    moreover have "rtrim (key @ '':'' @ body) = key @ '':'' @ body"
      unfolding tail [symmetric] by (simp add: rtrim_eq)
    ultimately show ?thesis unfolding strip_inline_comment_def cut tail by simp
  qed
  have "ltrim key = key" "rtrim key = key"
    using key(1) nb(1) colon(2) by (intro ltrim_keep rtrim_keep; simp add: k(1))+
  then have kk: "rtrim (ltrim key) = key" "unquote key = key"
    using nb(5) by (simp_all add: k(1) unquote_def)
  have "takeWhile (\<lambda>c. c \<noteq> CHR '':'') (key @ CHR '':'' # body) = key"
    using colon(1) by (intro takeWhile_stop) auto
  moreover have "dropWhile (\<lambda>c. c \<noteq> CHR '':'') (key @ CHR '':'' # body) = CHR '':'' # body"
    using colon(1) by (intro dropWhile_stop) auto
  ultimately show ?thesis
    unfolding split_line_def lt ind dr cur Let_def using i nb kk by (simp add: k(1))
qed

lemma key_facts:
  assumes "key \<noteq> []" "list_all plain_char key"
  shows "DQUOTE \<notin> set (key @ '':'')" "CHR ''#'' \<notin> set (key @ '':'')"
  using assms by (auto simp: list_all_iff plain_char_def)

lemma split_config_line:
  assumes "key \<noteq> []" "list_all plain_char key" "i = 0 \<or> i = 2" "val_text tx v"
  shows "split_line n (config_line i key tx) = Inr (Some (i, key, v))"
proof -
  let ?pre = "key @ '':'' @ [SPC]"
  have t: "tx \<noteq> []" "\<not> blank (hd tx)" "\<not> blank (last tx)" "unquote tx = v"
    "cut_comment False (Some SPC) (tx @ [LF]) = tx @ [LF]"
    using assms(4) by (simp_all add: val_text_def)
  have "cut_comment False None (?pre @ tx @ [LF]) = ?pre @ cut_comment False (Some SPC) (tx @ [LF])"
    using key_facts [OF assms(1,2)] by (subst cut_comment_plain) auto
  then have cut: "cut_comment False None (key @ '':'' @ SPC # tx @ [LF]) = key @ '':'' @ SPC # tx @ [LF]"
    using t(5) by simp
  have "rtrim ((key @ '':'' @ SPC # tx) @ [LF]) = rtrim (key @ '':'' @ SPC # tx)"
    by (rule rtrim_snoc_blank) (simp add: blank_def)
  also have "\<dots> = key @ '':'' @ SPC # tx" using t(1,3) by (intro rtrim_keep) auto
  finally have tail: "rtrim (key @ '':'' @ SPC # tx @ [LF]) = key @ '':'' @ SPC # tx" by simp
  have "ltrim (SPC # tx) = tx" using t(1,2) by (cases tx) (simp_all add: ltrim_def blank_def)
  then have "unquote (rtrim (ltrim (SPC # tx))) = v" using t by (simp add: rtrim_keep)
  with split_line_core [OF assms(1) assms(2) assms(3) cut tail] show ?thesis by (simp add: config_line_def)
qed

lemma split_section_line:
  assumes "key \<noteq> []" "list_all plain_char key"
  shows "split_line n (section_line key) = Inr (Some (0, key, []))"
proof -
  have cut: "cut_comment False None (key @ '':'' @ [LF]) = key @ '':'' @ [LF]"
    using key_facts [OF assms] cut_comment_plain [of "key @ '':''" False None "[LF]"] by simp
  have "rtrim ((key @ '':'') @ [LF]) = rtrim (key @ '':'')"
    by (rule rtrim_snoc_blank) (simp add: blank_def)
  also have "\<dots> = key @ '':''" by (rule rtrim_keep) (simp_all add: blank_def)
  finally have tail: "rtrim (key @ '':'' @ [LF]) = key @ '':'' @ []" by simp
  have "unquote (rtrim (ltrim [])) = []" by (simp add: ltrim_def rtrim_eq unquote_def)
  with split_line_core [OF assms, of 0 "[LF]" "[]"] cut tail show ?thesis
    by (simp add: section_line_def)
qed

text \<open>The keys of a rendered file.\<close>

definition key_ok :: "cstring \<Rightarrow> bool" where
  "key_ok key \<longleftrightarrow> key \<noteq> [] \<and> list_all plain_char key"

lemma keys_ok:
  "key_ok ''config_version''" "key_ok ''poll_interval_seconds''" "key_ok ''host_override''"
  "key_ok ''cpu''" "key_ok ''memory''" "key_ok ''disk''" "key_ok ''network''" "key_ok ''processes''"
  "key_ok ''type''" "key_ok ''url''" "key_ok ''path''" "key_ok ''auth_header''" "key_ok ''batch_size''"
  "key_ok ''batch_interval_seconds''" "key_ok ''retry_max_attempts''"
  "key_ok ''retry_backoff_seconds''" "key_ok ''level''" "key_ok ''destination''"
  by (simp_all add: key_ok_def plain_char_def blank_def)

text \<open>What a rendered line does to the loader's state.\<close>

lemma load_top:
  assumes "key_ok key" "key \<notin> {''output'', ''collect'', ''log''}" "val_text tx v"
  shows "load_line n (config_line 0 key tx) (sect, c) =
    map_sum id (Pair SECTION_NONE) (set_scalar_top_level c key v n)"
  using assms by (simp add: key_ok_def load_line_def split_config_line apply_line_def)

lemma load_nested:
  assumes "key_ok key" "val_text tx v"
  shows "load_line n (config_line 2 key tx) (SECTION_OUTPUT, c) =
      map_sum id (Pair SECTION_OUTPUT) (set_output_key c key v n)"
    "load_line n (config_line 2 key tx) (SECTION_COLLECT, c) =
      map_sum id (Pair SECTION_COLLECT) (set_collect_key c key v n)"
    "load_line n (config_line 2 key tx) (SECTION_LOG, c) =
      map_sum id (Pair SECTION_LOG) (set_log_key c key v n)"
  using assms by (simp_all add: key_ok_def load_line_def split_config_line apply_line_def)

lemma load_section:
  "load_line n (section_line ''output'') (sect, c) = Inr (SECTION_OUTPUT, c)"
  "load_line n (section_line ''collect'') (sect, c) = Inr (SECTION_COLLECT, c)"
  "load_line n (section_line ''log'') (sect, c) = Inr (SECTION_LOG, c)"
  by (simp_all add: load_line_def split_section_line apply_line_def plain_char_def blank_def)

lemma parse_show_bool: "parse_bool_value (show_bool b) = Some b"
  by (simp add: parse_bool_value_def show_bool_def)

text \<open>The configurations a file can express: numbers that a file may set, and strings that fit
  between quotes.\<close>

definition cfg_printable :: "syswatch_config \<Rightarrow> bool" where
  "cfg_printable c \<longleftrightarrow>
     cfg_wf c \<and> 1 \<le> output_batch_size c \<and> 1 \<le> output_batch_interval_seconds c \<and>
     quotable (host_override c) \<and> quotable (output_url c) \<and> quotable (output_path c) \<and>
     quotable (output_auth_header c) \<and> quotable (log_path c)"

lemmas file_line_rules =
  load_section
  load_top [OF _ _ val_text_quoted] load_top [OF _ _ val_text_show_int]
  load_nested [OF _ val_text_quoted] load_nested [OF _ val_text_show_int]
  load_nested [OF _ val_text_show_bool]
  keys_ok

text \<open>What the setters write on the values of such a configuration.\<close>

lemma set_choices:
  "output_type_ok v \<Longrightarrow> set_output_key c ''type'' v n = Inr (c\<lparr>output_type := v\<rparr>)"
  "log_level_ok v \<Longrightarrow> set_log_key c ''level'' v n = Inr (c\<lparr>log_level := v\<rparr>)"
  "log_destination_ok v \<Longrightarrow> set_log_key c ''destination'' v n = Inr (c\<lparr>log_destination := v\<rparr>)"
  "set_scalar_top_level c ''config_version'' ''1.0'' n = Inr (c\<lparr>config_version := ''1.0''\<rparr>)"
  unfolding output_type_ok_def log_level_ok_def log_destination_ok_def
  subgoal by (elim disjE) (simp_all add: set_output_key_def)
  subgoal by (elim disjE) (simp_all add: set_log_key_def)
  subgoal by (elim disjE) (simp_all add: set_log_key_def)
  subgoal by (simp add: set_scalar_top_level_def)
  done

lemma set_strings:
  "length v < 128 \<Longrightarrow> set_scalar_top_level c ''host_override'' v n = Inr (c\<lparr>host_override := v\<rparr>)"
  "length v < 256 \<Longrightarrow> set_output_key c ''url'' v n = Inr (c\<lparr>output_url := v\<rparr>)"
  "length v < 256 \<Longrightarrow> set_output_key c ''path'' v n = Inr (c\<lparr>output_path := v\<rparr>)"
  "length v < 256 \<Longrightarrow> set_output_key c ''auth_header'' v n = Inr (c\<lparr>output_auth_header := v\<rparr>)"
  "length v < 256 \<Longrightarrow> set_log_key c ''path'' v n = Inr (c\<lparr>log_path := v\<rparr>)"
  by (simp_all add: set_output_key_def set_log_key_def set_scalar_top_level_def)

lemma set_ints:
  "1 \<le> i \<Longrightarrow> i \<le> 86400 \<Longrightarrow>
     set_scalar_top_level c ''poll_interval_seconds'' (show_int i) n = Inr (c\<lparr>interval_sec := i\<rparr>)"
  "1 \<le> i \<Longrightarrow> i \<le> 100000 \<Longrightarrow>
     set_output_key c ''batch_size'' (show_int i) n = Inr (c\<lparr>output_batch_size := i\<rparr>)"
  "1 \<le> i \<Longrightarrow> i \<le> 86400 \<Longrightarrow>
     set_output_key c ''batch_interval_seconds'' (show_int i) n =
       Inr (c\<lparr>output_batch_interval_seconds := i\<rparr>)"
  "0 \<le> i \<Longrightarrow> i \<le> 100 \<Longrightarrow>
     set_output_key c ''retry_max_attempts'' (show_int i) n = Inr (c\<lparr>output_retry_max_attempts := i\<rparr>)"
  "0 \<le> i \<Longrightarrow> i \<le> 3600 \<Longrightarrow>
     set_output_key c ''retry_backoff_seconds'' (show_int i) n =
       Inr (c\<lparr>output_retry_backoff_seconds := i\<rparr>)"
  by (simp_all add: set_output_key_def set_scalar_top_level_def parse_int_value_show_int)

lemma set_flags:
  "set_collect_key c ''cpu'' (show_bool b) n = Inr (c\<lparr>show_cpu := b\<rparr>)"
  "set_collect_key c ''memory'' (show_bool b) n = Inr (c\<lparr>show_memory := b\<rparr>)"
  "set_collect_key c ''disk'' (show_bool b) n = Inr (c\<lparr>show_disk := b\<rparr>)"
  "set_collect_key c ''network'' (show_bool b) n = Inr (c\<lparr>show_network := b\<rparr>)"
  "set_collect_key c ''processes'' (show_bool b) n = Inr (c\<lparr>show_processes := b\<rparr>)"
  by (simp_all add: set_collect_key_def parse_show_bool)

lemma load_render_lines:
  assumes "cfg_printable c" "cli_fields c0 = cli_fields c"
  shows "load_lines 0 (render_lines c) (sect, c0) = ((SECTION_LOG, c), None)"
proof -
  have r: "config_version c = ''1.0''" "output_type_ok (output_type c)" "log_level_ok (log_level c)"
    "log_destination_ok (log_destination c)" "cfg_ranges c" "cfg_buffers c"
    using assms(1) by (simp_all add: cfg_printable_def cfg_wf_def cfg_choices_def)
  have q: "quotable ''1.0''" "quotable (output_type c)" "quotable (log_level c)"
    "quotable (log_destination c)"
    using r by (auto simp: quotable_def choice_defs)
  have "load_lines 0 (render_lines c) (sect, c0) =
    ((SECTION_LOG, c0\<lparr>config_version := ''1.0'', interval_sec := interval_sec c,
       host_override := host_override c, show_cpu := show_cpu c, show_memory := show_memory c,
       show_disk := show_disk c, show_network := show_network c, show_processes := show_processes c,
       output_type := output_type c, output_url := output_url c, output_path := output_path c,
       output_auth_header := output_auth_header c, output_batch_size := output_batch_size c,
       output_batch_interval_seconds := output_batch_interval_seconds c,
       output_retry_max_attempts := output_retry_max_attempts c,
       output_retry_backoff_seconds := output_retry_backoff_seconds c,
       log_level := log_level c, log_destination := log_destination c,
       log_path := log_path c\<rparr>), None)"
    using assms(1) r q
    by (simp add: render_lines_def file_line_rules set_choices set_strings set_ints set_flags
        cfg_printable_def cfg_ranges_def cfg_buffers_def)
  also have "\<dots> = ((SECTION_LOG, c), None)"
    using assms(2) r(1) by (simp add: cli_fields_def)
  finally show ?thesis .
qed

text \<open>The rendered lines fit the line buffer of the loader.\<close>

lemma buffer_config_line:
  assumes "LF \<notin> set key" "no_nul key" "LF \<notin> set tx" "no_nul tx" "i + length key + length tx < 1021"
  shows "text_line 1024 (config_line i key tx)"
proof -
  let ?b = "replicate i SPC @ key @ '':'' @ SPC # tx"
  have "no_nul (replicate i SPC)" by (simp add: no_nul_def)
  then have "config_line i key tx = ?b @ [LF] \<and> LF \<notin> set ?b \<and> no_nul ?b \<and> Suc (length ?b) < 1024"
    using assms by (auto simp: config_line_def)
  then show ?thesis unfolding text_line_def by (rule exI)
qed

lemma buffer_section_line: "text_line 1024 (section_line ''output'')" "text_line 1024 (section_line ''collect'')"
  "text_line 1024 (section_line ''log'')"
  by (simp_all add: text_line_def section_line_def)

definition short_text :: "cstring \<Rightarrow> bool" where
  "short_text tx \<longleftrightarrow> LF \<notin> set tx \<and> no_nul tx \<and> length tx < 300"

lemma short_texts:
  "quotable s \<Longrightarrow> length s < 256 \<Longrightarrow> short_text (quote_val s)"
  "0 \<le> i \<Longrightarrow> i \<le> 100000 \<Longrightarrow> short_text (show_int i)"
  "short_text (show_bool b)"
proof -
  show "short_text (quote_val s)" if "quotable s" "length s < 256"
    using that by (simp add: short_text_def quote_val_def quotable_def)
  show "short_text (show_int i)" if "0 \<le> i" "i \<le> 100000"
  proof -
    have "LF \<notin> set (show_nat (nat i))" using isdigit_show_nat [of "nat i"] by auto
    moreover have "length (show_nat (nat i)) \<le> 6" using that by (intro length_show_nat) auto
    ultimately show ?thesis using that by (simp add: short_text_def show_int_def)
  qed
  show "short_text (show_bool b)" by (simp add: short_text_def show_bool_def)
qed

lemma buffer_short:
  assumes "short_text tx" "LF \<notin> set key" "no_nul key" "i + length key < 700"
  shows "text_line 1024 (config_line i key tx)"
  using assms by (intro buffer_config_line) (auto simp: short_text_def)

lemma buffer_render_lines:
  assumes "cfg_printable c"
  shows "list_all (text_line 1024) (render_lines c)"
proof -
  have r: "config_version c = ''1.0''" "output_type_ok (output_type c)" "log_level_ok (log_level c)"
    "log_destination_ok (log_destination c)" "cfg_ranges c" "cfg_buffers c"
    using assms(1) by (simp_all add: cfg_printable_def cfg_wf_def cfg_choices_def)
  have "quotable (config_version c) \<and> length (config_version c) < 256"
    "quotable (output_type c) \<and> length (output_type c) < 256"
    "quotable (log_level c) \<and> length (log_level c) < 256"
    "quotable (log_destination c) \<and> length (log_destination c) < 256"
    using r by (auto simp: quotable_def choice_defs)
  then show ?thesis
    using assms r(5,6)
    by (simp add: render_lines_def buffer_short buffer_section_line short_texts
        cfg_printable_def cfg_ranges_def cfg_buffers_def)
qed

text \<open>C22: Printing and parsing are inverse: from any configuration with the same command-line
  fields, loading the file that renders a printable configuration succeeds and yields exactly that
  configuration.\<close>

theorem load_config_roundtrip:
  assumes "cfg_printable c" "cli_fields c0 = cli_fields c"
    "open_file path = Some (concat (render_lines c))" "path \<noteq> ''-''"
  shows "load_config_file open_file stdin (Some path) (Some c0) = (Some c, None)"
  using assms buffer_render_lines [OF assms(1)] load_render_lines [OF assms(1,2)]
  by (simp add: load_config_file_def fgets_lines_concat)

section \<open>Examples\<close>

definition demo_good :: cstring where
  "demo_good = ''# demo'' @ [LF] @ ''poll_interval_seconds: 5'' @ [LF] @ ''output:'' @ [LF] @
     ''  type: file # to disk'' @ [LF]"

definition demo_bad :: cstring where
  "demo_bad = demo_good @ ''  batch_size: 0'' @ [LF]"

definition demo_loaded :: syswatch_config where
  "demo_loaded = init_default_config\<lparr>interval_sec := 5, output_type := ''file''\<rparr>"

definition demo_printable :: syswatch_config where
  "demo_printable = init_default_config
     \<lparr>output_batch_size := 3, output_batch_interval_seconds := 4, host_override := ''a # b''\<rparr>"

lemma demo_load_good:
  "load_config_file (\<lambda>_. None) demo_good None (Some init_default_config) = (Some demo_loaded, None)"
  by code_simp

lemma demo_load_bad:
  "load_config_file (\<lambda>_. None) demo_bad None (Some init_default_config) =
     (Some demo_loaded, Some (BadBatchSize 5 ''0''))"
  by code_simp

lemma demo_lines_bad:
  "load_lines 0 (fgets_lines 1024 demo_bad) (SECTION_NONE, init_default_config) =
     ((SECTION_OUTPUT, demo_loaded), Some (BadBatchSize 5 ''0''))"
  by code_simp

theorem load_config_keeps_wf_witness:
  "cfg_wf demo_loaded \<and> cli_fields demo_loaded = cli_fields init_default_config"
  by (rule load_config_keeps_wf [OF demo_load_bad cfg_wf_default])

theorem load_lines_first_error_witness:
  "\<exists>k < length (fgets_lines 1024 demo_bad). error_line (BadBatchSize 5 ''0'') = Some (k + 1) \<and>
     load_lines 0 (take k (fgets_lines 1024 demo_bad)) (SECTION_NONE, init_default_config) =
       ((SECTION_OUTPUT, demo_loaded), None) \<and>
     load_line (k + 1) (fgets_lines 1024 demo_bad ! k) (SECTION_OUTPUT, demo_loaded) =
       Inl (BadBatchSize 5 ''0'')"
  by (rule load_lines_first_error [OF demo_lines_bad])

theorem validate_after_load_witness: "validate_config (Some demo_loaded) = Some OutputPathRequired"
  unfolding validate_after_load [OF demo_load_good]
  by (simp add: demo_loaded_def init_default_config_def zero_config_def)

theorem load_lines_comments_witness:
  "load_lines 0 ([''collect:'' @ [LF]] @ [''# a note'' @ [LF], [LF]] @ [''  cpu: false'' @ [LF]])
     (SECTION_NONE, init_default_config) =
   ((SECTION_COLLECT, init_default_config\<lparr>show_cpu := False\<rparr>), None)"
proof (rule load_lines_comments)
  show "load_lines 0 ([''collect:'' @ [LF]] @ [''  cpu: false'' @ [LF]]) (SECTION_NONE, init_default_config) =
      ((SECTION_COLLECT, init_default_config\<lparr>show_cpu := False\<rparr>), None)"
    by code_simp
  show "list_all ignorable [''# a note'' @ [LF], [LF]]" by code_simp
qed

theorem load_config_roundtrip_witness:
  "load_config_file (\<lambda>_. Some (concat (render_lines demo_printable))) [] (Some ''c.yaml'')
     (Some init_default_config) = (Some demo_printable, None)"
proof (rule load_config_roundtrip)
  show "cfg_printable demo_printable" by code_simp
  show "cli_fields init_default_config = cli_fields demo_printable" by code_simp
qed simp_all

end
