(* ===== verification/C_Double.thy ===== *)
theory C_Double
  imports C_Lib Complex_Main "HOL-Library.Log_Nat"
begin

text \<open>
  The C type \<^verbatim>\<open>double\<close> (IEEE 754 binary64, round to nearest even). A value is the rational
  number it stands for; every operation computes the exact result and rounds it to 53 significant
  bits with \<open>rnd\<close>. The range is left unbounded: the values the sources compute are 0 or lie
  between \<open>2 ^ -64\<close> and \<open>2 ^ 80\<close>, far from overflow and from the subnormal numbers, and no
  operation divides by zero, so infinities and NaN do not arise.

  \<open>fmt_fixed\<close> is the \<^verbatim>\<open>%.kf\<close> conversion: the exact value rounded (half to even) to
  \<open>k\<close> decimals, as glibc prints it.
\<close>

type_synonym double = rat

section \<open>Rounding\<close>

definition round_even :: "rat \<Rightarrow> int" where
  "round_even x =
     (let f = \<lfloor>x\<rfloor>; d = x - of_int f
      in if d < 1 / 2 then f else if d > 1 / 2 then f + 1 else if even f then f else f + 1)"

text \<open>\<open>bin_exp x\<close> is the exponent \<open>e\<close> with \<open>2 ^ e \<le> x < 2 ^ (e + 1)\<close>, for a positive \<open>x\<close>.\<close>

definition bin_exp :: "rat \<Rightarrow> int" where
  "bin_exp x =
     (if 1 \<le> x then int (floorlog 2 (nat \<lfloor>x\<rfloor>)) - 1
      else - int (floorlog 2 (nat (\<lceil>1 / x\<rceil> - 1))))"

definition rnd_pos :: "rat \<Rightarrow> double" where
  "rnd_pos x = (let u = 2 powi (bin_exp x - 52) in of_int (round_even (x / u)) * u)"

definition rnd :: "rat \<Rightarrow> double" where
  "rnd x = (if x = 0 then 0 else if x < 0 then - rnd_pos (- x) else rnd_pos x)"

definition d_of_u64 :: "u64 \<Rightarrow> double" where "d_of_u64 n = rnd (of_nat (unat n))"
definition d_of_int :: "int \<Rightarrow> double" where "d_of_int i = rnd (of_int i)"
definition d_mul :: "double \<Rightarrow> double \<Rightarrow> double" where "d_mul a b = rnd (a * b)"
definition d_div :: "double \<Rightarrow> double \<Rightarrow> double" where "d_div a b = rnd (a / b)"
definition d_sub :: "double \<Rightarrow> double \<Rightarrow> double" where "d_sub a b = rnd (a - b)"
definition d_add :: "double \<Rightarrow> double \<Rightarrow> double" where "d_add a b = rnd (a + b)"

lemmas double_ops = d_of_u64_def d_of_int_def d_mul_def d_div_def d_sub_def d_add_def

lemma round_even_of_int [simp]: "round_even (of_int i) = i"
  by (simp add: round_even_def)

lemma round_even_0 [simp]: "round_even 0 = 0"
  using round_even_of_int [of 0] by simp

lemma round_even_mono: "x \<le> y \<Longrightarrow> round_even x \<le> round_even y"
proof -
  assume xy: "x \<le> y"
  then have f: "\<lfloor>x\<rfloor> \<le> \<lfloor>y\<rfloor>" by (rule floor_mono)
  have bounds: "\<lfloor>z\<rfloor> \<le> round_even z" "round_even z \<le> \<lfloor>z\<rfloor> + 1" for z
    by (auto simp: round_even_def Let_def)
  show ?thesis
  proof (cases "\<lfloor>x\<rfloor> = \<lfloor>y\<rfloor>")
    case True
    with xy show ?thesis by (auto simp: round_even_def Let_def)
  next
    case False
    with f bounds [of x] bounds [of y] show ?thesis by linarith
  qed
qed

lemma round_even_nonneg: "0 \<le> x \<Longrightarrow> 0 \<le> round_even x"
  using round_even_mono [of 0 x] by simp

lemma round_even_le_of_int: "x \<le> of_int i \<Longrightarrow> round_even x \<le> i"
  using round_even_mono [of x "of_int i"] by simp

lemma round_even_ge_of_int: "of_int i \<le> x \<Longrightarrow> i \<le> round_even x"
  using round_even_mono [of "of_int i" x] by simp

lemma bin_exp_ge_1:
  assumes "1 \<le> x"
  shows "2 powi bin_exp x \<le> x" and "x < 2 powi (bin_exp x + 1)" and "0 \<le> bin_exp x"
proof -
  let ?n = "nat \<lfloor>x\<rfloor>"
  have pos: "0 < ?n" using assms by simp
  have fl: "rat_of_nat ?n \<le> x" "x < rat_of_nat ?n + 1"
    using assms floor_correct [of x] by (simp_all add: of_nat_nat)
  obtain k where k: "floorlog 2 ?n = Suc k"
    using pos by (cases "floorlog 2 ?n") (auto simp: floorlog_eq_zero_iff)
  have b: "2 ^ k \<le> ?n" "?n < 2 ^ Suc k"
    using floorlog_bounds [of ?n 2] pos k by auto
  have e: "bin_exp x = int k" using assms k by (simp add: bin_exp_def)
  show "0 \<le> bin_exp x" by (simp add: e)
  have "rat_of_nat (2 ^ k) \<le> rat_of_nat ?n" using b(1) by (simp only: of_nat_le_iff)
  then have "rat_of_nat (2 ^ k) \<le> x" using fl(1) by (rule order_trans)
  then show "2 powi bin_exp x \<le> x" by (simp add: e)
  have "?n + 1 \<le> 2 ^ Suc k" using b(2) by simp
  then have "rat_of_nat (?n + 1) \<le> rat_of_nat (2 ^ Suc k)" by (simp only: of_nat_le_iff)
  then show "x < 2 powi (bin_exp x + 1)"
    using fl by (simp add: e power_int_def nat_add_distrib)
qed

lemma bin_exp_less_1:
  assumes "0 < x" "x < 1"
  shows "2 powi bin_exp x \<le> x" and "x < 2 powi (bin_exp x + 1)"
proof -
  let ?n = "nat (\<lceil>1 / x\<rceil> - 1)"
  have "1 < 1 / x" using assms by simp
  then have c: "2 \<le> \<lceil>1 / x\<rceil>" by linarith
  have pos: "0 < ?n" using c by simp
  have fl: "1 / x \<le> rat_of_nat ?n + 1" "rat_of_nat ?n < 1 / x"
    using c ceiling_correct [of "1 / x"] by (simp_all only: of_nat_nat) simp_all
  obtain k where k: "floorlog 2 ?n = Suc k"
    using pos by (cases "floorlog 2 ?n") (auto simp: floorlog_eq_zero_iff)
  have b: "2 ^ k \<le> ?n" "?n < 2 ^ Suc k"
    using floorlog_bounds [of ?n 2] pos k by auto
  have e: "bin_exp x = - int (Suc k)" using assms k by (simp add: bin_exp_def)
  have "?n + 1 \<le> 2 ^ Suc k" using b(2) by simp
  then have "rat_of_nat (?n + 1) \<le> rat_of_nat (2 ^ Suc k)" by (simp only: of_nat_le_iff)
  with fl(1) have "1 / x \<le> 2 ^ Suc k" by simp
  then show "2 powi bin_exp x \<le> x"
    using assms unfolding e power_int_minus power_int_of_nat by (simp add: field_simps)
  have "rat_of_nat (2 ^ k) \<le> rat_of_nat ?n" using b(1) by (simp only: of_nat_le_iff)
  then have "rat_of_nat (2 ^ k) < 1 / x" using fl(2) by (rule le_less_trans)
  then have "2 ^ k < 1 / x" by simp
  then have "x < inverse (2 ^ k)" using assms by (simp add: field_simps)
  moreover have "bin_exp x + 1 = - int k" using e by simp
  ultimately show "x < 2 powi (bin_exp x + 1)"
    by (simp only: power_int_minus power_int_of_nat)
qed

lemma bin_exp_bounds:
  assumes "0 < x"
  shows "2 powi bin_exp x \<le> x" and "x < 2 powi (bin_exp x + 1)"
  using assms bin_exp_ge_1 [of x] bin_exp_less_1 [of x] by (cases "1 \<le> x"; simp)+

lemma bin_exp_mono: "0 < x \<Longrightarrow> x \<le> y \<Longrightarrow> bin_exp x \<le> bin_exp y"
proof (rule ccontr)
  assume a: "0 < x" "x \<le> y" "\<not> bin_exp x \<le> bin_exp y"
  then have "(2 :: rat) powi (bin_exp y + 1) \<le> 2 powi bin_exp x"
    by (intro power_int_increasing) auto
  with bin_exp_bounds [of x] bin_exp_bounds [of y] a show False by linarith
qed

lemma powi_52: "(2 :: rat) powi e = 2 ^ 52 * 2 powi (e - 52)"
proof -
  have "(2 :: rat) powi (52 + (e - 52)) = 2 powi 52 * 2 powi (e - 52)"
    by (rule power_int_add) simp
  then show ?thesis by simp
qed

text \<open>The rounded value stays in the binade, its upper end included.\<close>

lemma rnd_pos_bounds:
  assumes "0 < x"
  shows "2 powi bin_exp x \<le> rnd_pos x" and "rnd_pos x \<le> 2 powi (bin_exp x + 1)"
proof -
  define u :: rat where "u = 2 powi (bin_exp x - 52)"
  have u: "0 < u" by (simp add: u_def)
  have b: "2 ^ 52 * u \<le> x" "x < 2 ^ 53 * u"
    using bin_exp_bounds [OF assms] powi_52 [of "bin_exp x"] powi_52 [of "bin_exp x + 1"]
    by (simp_all add: u_def power_int_add algebra_simps)
  then have "of_int (2 ^ 52) \<le> x / u" "x / u \<le> of_int (2 ^ 53)"
    using u by (simp_all add: field_simps)
  then have "2 ^ 52 \<le> round_even (x / u)" "round_even (x / u) \<le> 2 ^ 53"
    by (blast intro: round_even_ge_of_int round_even_le_of_int)+
  then have "(of_int (2 ^ 52) :: rat) \<le> of_int (round_even (x / u))"
    "of_int (round_even (x / u)) \<le> (of_int (2 ^ 53) :: rat)"
    by (simp_all only: of_int_le_iff)
  then have "2 ^ 52 * u \<le> rnd_pos x" "rnd_pos x \<le> 2 ^ 53 * u"
    using u by (simp_all add: rnd_pos_def Let_def u_def)
  then show "2 powi bin_exp x \<le> rnd_pos x" and "rnd_pos x \<le> 2 powi (bin_exp x + 1)"
    using powi_52 [of "bin_exp x"] powi_52 [of "bin_exp x + 1"]
    by (simp_all add: u_def power_int_add algebra_simps)
qed

lemma rnd_pos_mono: "0 < x \<Longrightarrow> x \<le> y \<Longrightarrow> rnd_pos x \<le> rnd_pos y"
proof (cases "bin_exp x = bin_exp y")
  case True
  assume "0 < x" "x \<le> y"
  then have "x / 2 powi (bin_exp y - 52) \<le> y / 2 powi (bin_exp y - 52)"
    by (intro divide_right_mono) auto
  then show ?thesis
    using True by (auto simp: rnd_pos_def Let_def intro!: mult_right_mono round_even_mono)
next
  case False
  assume xy: "0 < x" "x \<le> y"
  then have "bin_exp x + 1 \<le> bin_exp y" using False bin_exp_mono [of x y] by simp
  then have "(2 :: rat) powi (bin_exp x + 1) \<le> 2 powi bin_exp y"
    by (intro power_int_increasing) auto
  with rnd_pos_bounds(2) [of x] rnd_pos_bounds(1) [of y] xy show ?thesis by linarith
qed

lemma rnd_pos_pos: "0 < x \<Longrightarrow> 0 < rnd_pos x"
  using rnd_pos_bounds(1) [of x] by (meson less_le_trans zero_less_power_int zero_less_numeral)

lemma rnd_0 [simp]: "rnd 0 = 0"
  by (simp add: rnd_def)

lemma rnd_nonneg [simp]: "0 \<le> x \<Longrightarrow> 0 \<le> rnd x"
  using rnd_pos_pos [of x] by (auto simp: rnd_def)

lemma rnd_pos_iff [simp]: "0 < x \<Longrightarrow> 0 < rnd x"
  using rnd_pos_pos [of x] by (auto simp: rnd_def)

lemma rnd_minus: "rnd (- x) = - rnd x"
  by (simp add: rnd_def)

theorem rnd_mono: "x \<le> y \<Longrightarrow> rnd x \<le> rnd y"
proof -
  assume xy: "x \<le> y"
  consider "0 < x" | "x \<le> 0" "0 \<le> y" | "y < 0" by linarith
  then show ?thesis
  proof cases
    case 1
    with xy rnd_pos_mono [of x y] show ?thesis by (simp add: rnd_def)
  next
    case 2
    then have "0 \<le> rnd (- x)" "0 \<le> rnd y" by (simp_all del: rnd_minus)
    then show ?thesis by (simp add: rnd_minus)
  next
    case 3
    with xy rnd_pos_mono [of "- y" "- x"] show ?thesis by (simp add: rnd_def)
  qed
qed

text \<open>Values of at most 53 significant bits are kept exactly.\<close>

lemma rnd_exact_pos:
  assumes "0 < m" "m < 2 ^ 53"
  shows "rnd (of_int m * 2 powi p) = of_int m * 2 powi p"
proof -
  let ?x = "of_int m * 2 powi p :: rat"
  define e where "e = bin_exp ?x"
  have pos: "0 < ?x" using assms by simp
  have "(of_int m :: rat) < of_int (2 ^ 53)" using assms(2) by (simp only: of_int_less_iff)
  then have "?x < 2 ^ 53 * 2 powi p" by simp
  also have "2 ^ 53 * 2 powi p = (2 :: rat) powi (53 + p)" by (simp add: power_int_add)
  finally have "(2 :: rat) powi e < 2 powi (53 + p)"
    using bin_exp_bounds(1) [OF pos] unfolding e_def by linarith
  then have "e < 53 + p"
    using power_int_increasing [of "53 + p" e "2 :: rat"] by (cases "e < 53 + p") auto
  then obtain k where k: "p - (e - 52) = int k" using zero_le_imp_eq_int [of "p - (e - 52)"] by auto
  have "?x / 2 powi (e - 52) = of_int m * 2 powi (p - (e - 52))" by (simp add: power_int_diff)
  then have q: "?x / 2 powi (e - 52) = of_int (m * 2 ^ k)" by (simp add: k)
  have "rnd ?x = of_int (round_even (?x / 2 powi (e - 52))) * 2 powi (e - 52)"
    using pos by (simp add: rnd_def rnd_pos_def e_def Let_def)
  also have "\<dots> = of_int (m * 2 ^ k) * 2 powi (e - 52)" unfolding q round_even_of_int ..
  also have "\<dots> = of_int m * (2 powi (p - (e - 52)) * 2 powi (e - 52))" by (simp add: k)
  also have "\<dots> = ?x" by (simp flip: power_int_add)
  finally show ?thesis .
qed

lemma rnd_of_int [simp]: "\<bar>m\<bar> < 2 ^ 53 \<Longrightarrow> rnd (of_int m) = of_int m"
  using rnd_exact_pos [of m 0] rnd_exact_pos [of "- m" 0] rnd_minus [of "of_int m"]
  by (cases "m = 0"; cases "0 < m") auto

lemma rnd_of_nat: "n < 2 ^ 53 \<Longrightarrow> rnd (of_nat n) = of_nat n"
  using rnd_of_int [of "int n"] by simp

lemma rnd_numeral [simp]: "(numeral n :: int) < 2 ^ 53 \<Longrightarrow> rnd (numeral n) = numeral n"
  using rnd_of_int [of "numeral n"] by simp

lemma rnd_1 [simp]: "rnd 1 = 1"
  using rnd_of_int [of 1] by simp

lemma d_of_u64_nonneg [simp]: "0 \<le> d_of_u64 n"
  unfolding d_of_u64_def by (rule rnd_nonneg) (rule of_nat_0_le_iff)

lemma d_of_u64_pos [simp]: "n \<noteq> 0 \<Longrightarrow> 0 < d_of_u64 n"
  unfolding d_of_u64_def by (rule rnd_pos_iff) (metis of_nat_0_less_iff unat_gt_0)

lemma d_of_u64_mono: "m \<le> n \<Longrightarrow> d_of_u64 m \<le> d_of_u64 n"
  unfolding d_of_u64_def by (rule rnd_mono) (simp only: of_nat_le_iff word_le_nat_alt)

lemma d_of_u64_0 [simp]: "d_of_u64 0 = 0"
  by (simp add: d_of_u64_def)

text \<open>Scaling by a power of two commutes with rounding.\<close>

lemma bin_exp_unique:
  assumes "2 powi e \<le> x" "x < 2 powi (e + 1)"
  shows "bin_exp x = e"
proof -
  have pos: "0 < x" using assms(1) by (meson less_le_trans zero_less_power_int zero_less_numeral)
  have lt: "a < b + 1" if "2 powi a \<le> x" "x < 2 powi (b + 1)" for a b :: int
    using that power_int_increasing [of "b + 1" a "2 :: rat"] by (cases "a < b + 1") auto
  from lt [OF assms(1) bin_exp_bounds(2) [OF pos]] lt [OF bin_exp_bounds(1) [OF pos] assms(2)]
  show ?thesis by simp
qed

lemma bin_exp_scale: "0 < x \<Longrightarrow> bin_exp (x * 2 powi k) = bin_exp x + k"
  using bin_exp_bounds [of x] by (intro bin_exp_unique) (simp_all add: power_int_add)

lemma rnd_pos_scale: "0 < x \<Longrightarrow> rnd_pos (x * 2 powi k) = rnd_pos x * 2 powi k"
proof -
  assume x: "0 < x"
  have "(2 :: rat) powi (bin_exp x + k - 52) = 2 powi ((bin_exp x - 52) + k)"
    by (simp add: algebra_simps)
  then show ?thesis
    using x by (simp add: rnd_pos_def Let_def bin_exp_scale power_int_add)
qed

lemma rnd_scale: "rnd (x * 2 powi k) = rnd x * 2 powi k"
proof -
  have p: "0 < (2 :: rat) powi k" by simp
  consider "x < 0" | "x = 0" | "0 < x" by linarith
  then show ?thesis
  proof cases
    case 1
    with p rnd_pos_scale [of "- x" k] show ?thesis by (simp add: rnd_def mult_less_0_iff)
  next
    case 3
    with p rnd_pos_scale [of x k] have "\<not> x * 2 powi k < 0"
      by (simp add: not_less)
    with 3 p rnd_pos_scale [of x k] show ?thesis by (simp add: rnd_def)
  qed simp
qed

text \<open>A rounded value is a double: rounding it again changes nothing.\<close>

lemma rnd_rnd [simp]: "rnd (rnd x) = rnd x"
proof -
  have pos: "rnd (rnd_pos y) = rnd_pos y" if "0 < y" for y
  proof -
    define e where "e = bin_exp y"
    define m where "m = round_even (y / 2 powi (e - 52))"
    have y: "rnd_pos y = of_int m * 2 powi (e - 52)"
      by (simp add: rnd_pos_def Let_def m_def e_def)
    have "0 < rnd_pos y" using rnd_pos_pos [OF that] .
    then have "(0 :: rat) < of_int m" unfolding y by (rule zero_less_mult_pos2) simp
    then have m0: "0 < m" by simp
    have "of_int m * 2 powi (e - 52) \<le> 2 ^ 53 * (2 :: rat) powi (e - 52)"
      using rnd_pos_bounds(2) [OF that] unfolding y e_def [symmetric]
      by (simp add: power_int_add power_int_diff)
    then have "of_int m \<le> (of_int (2 ^ 53) :: rat)" by simp
    then have "m \<le> 2 ^ 53" by (simp only: of_int_le_iff)
    then consider "m < 2 ^ 53" | "m = 2 ^ 53" by linarith
    then show ?thesis
    proof cases
      case 1
      then show ?thesis unfolding y using m0 by (intro rnd_exact_pos) simp_all
    next
      case 2
      have "(2 :: rat) powi (53 + (e - 52)) = 2 ^ 53 * 2 powi (e - 52)"
        by (subst power_int_add) simp_all
      with 2 have "rnd_pos y = of_int 1 * 2 powi (53 + (e - 52))" unfolding y by simp
      then show ?thesis using rnd_exact_pos [of 1 "53 + (e - 52)"] by simp
    qed
  qed
  show ?thesis
    using pos [of x] pos [of "- x"] rnd_minus [of "rnd_pos (- x)"]
    by (cases "x = 0"; cases "x < 0") (auto simp: rnd_def [of x])
qed

lemma d_div_1024: "rnd x = x \<Longrightarrow> d_div x 1024 = x / 1024"
  using rnd_scale [of x "- 10"] by (simp add: d_div_def power_int_minus field_simps)

lemma rnd_div_1024: "rnd x = x \<Longrightarrow> rnd (x / 1024) = x / 1024"
  using d_div_1024 [of x] by (simp add: d_div_def)

section \<open>Fixed-point output\<close>

definition pad_left :: "nat \<Rightarrow> char \<Rightarrow> cstring \<Rightarrow> cstring" where
  "pad_left n c s = replicate (n - length s) c @ s"

definition fmt_fixed :: "nat \<Rightarrow> double \<Rightarrow> cstring" where
  "fmt_fixed k x =
     (let r = nat (round_even (\<bar>x\<bar> * 10 ^ k));
          sign = (if x < 0 then ''-'' else []);
          frac = (if k = 0 then [] else ''.'' @ pad_left k (CHR ''0'') (show_nat (r mod 10 ^ k)))
      in sign @ show_nat (r div 10 ^ k) @ frac)"

end
