(* ===== verification/Utils.thy ===== *)
theory Utils
  imports C_Double
begin

text \<open>
  \<^verbatim>\<open>src/utils.c\<close>: white-space trimming, the \<^verbatim>\<open>unsigned long long\<close> parser, clamping,
  human-readable sizes and the RFC 3339 timestamp.

  A failing function returns \<open>None\<close> where the C code returns -1 and leaves its output alone.
  \<open>format_rfc3339\<close> is modelled down to the bytes of its 16-byte stack buffer
  \<^verbatim>\<open>tz_buf\<close>, whose indeterminate initial contents are an argument; \<open>None\<close> then stands
  for reading past the buffer (undefined behaviour).
\<close>

section \<open>Strings and numbers\<close>

text \<open>\<open>content\<close> is the file's contents when \<^verbatim>\<open>fopen\<close> succeeds.\<close>

definition read_first_line :: "char list option \<Rightarrow> nat \<Rightarrow> cstring option" where
  "read_first_line content bufsize =
     (if bufsize = 0 then None
      else case content of
        None \<Rightarrow> None
      | Some s \<Rightarrow> if s = [] then None else Some (cstr (fst (fgets_split (bufsize - 1) s))))"

text \<open>The second loop of \<^verbatim>\<open>trim_whitespace\<close>: it never removes the first character.\<close>

fun trim_end :: "cstring \<Rightarrow> cstring" where
  "trim_end s = (if length s > 1 \<and> isspace (last s) then trim_end (butlast s) else s)"

declare trim_end.simps [simp del]

definition trim_whitespace :: "cstring \<Rightarrow> cstring" where
  "trim_whitespace s = (let t = dropWhile isspace s in if t = [] then t else trim_end t)"

definition parse_ull :: "cstring \<Rightarrow> u64 option" where
  "parse_ull s =
     (case strtoull s of
        None \<Rightarrow> None
      | Some (v, rest, erange) \<Rightarrow>
          if erange then None else if list_all isspace rest then Some v else None)"

definition clamp_double :: "double \<Rightarrow> double \<Rightarrow> double \<Rightarrow> double" where
  "clamp_double val lo hi = (if val < lo then lo else if val > hi then hi else val)"

definition units :: "cstring list" where
  "units = [''B'', ''K'', ''M'', ''G'', ''T'']"

function scale_units :: "double \<Rightarrow> nat \<Rightarrow> double \<times> nat" where
  "scale_units v idx =
     (if v \<ge> 1024 \<and> idx < 4 then scale_units (d_div v 1024) (idx + 1) else (v, idx))"
  by pat_completeness auto
termination
  by (relation "measure (\<lambda>(_, idx). 4 - idx)") auto

declare scale_units.simps [simp del]

definition format_bytes :: "double \<Rightarrow> nat \<Rightarrow> cstring option" where
  "format_bytes bytes bufsize =
     (if bufsize = 0 then None
      else let (v, idx) = scale_units bytes 0
           in Some (copy_trunc bufsize
                (if idx = 0 then fmt_fixed 0 v @ units ! idx else fmt_fixed 1 v @ units ! idx)))"

lemma trim_end_dropWhile:
  "s \<noteq> [] \<Longrightarrow> \<not> isspace (hd s) \<Longrightarrow> trim_end s = rev (dropWhile isspace (rev s))"
proof (induction s rule: trim_end.induct)
  case (1 s)
  obtain t c where s: "s = t @ [c]" using "1.prems"(1) by (cases s rule: rev_cases) auto
  show ?case
  proof (cases "length s > 1 \<and> isspace (last s)")
    case True
    then have "t \<noteq> []" "hd t = hd s" using s by (cases t; simp)+
    then have "trim_end t = rev (dropWhile isspace (rev t))"
      using "1.IH" [OF True] "1.prems"(2) unfolding s by simp
    moreover have "trim_end s = trim_end t" using True unfolding s by (subst trim_end.simps) simp
    ultimately show ?thesis using True by (simp add: s)
  next
    case False
    then have "\<not> isspace c" using "1.prems" s by (cases t) auto
    moreover have "trim_end s = s" using False by (subst trim_end.simps) auto
    ultimately show ?thesis by (simp add: s)
  qed
qed

lemma trim_whitespace_eq:
  "trim_whitespace s = rev (dropWhile isspace (rev (dropWhile isspace s)))"
proof (cases "dropWhile isspace s = []")
  case False
  then have "\<not> isspace (hd (dropWhile isspace s))" by (rule hd_dropWhile)
  from trim_end_dropWhile [OF False this] False show ?thesis
    unfolding trim_whitespace_def Let_def by (simp only: if_False)
next
  case True
  then show ?thesis unfolding trim_whitespace_def Let_def True by simp
qed

lemma trim_whitespace_core:
  assumes "\<forall>c \<in> set ws1. isspace c" "\<forall>c \<in> set ws2. isspace c"
    and "core \<noteq> []" "\<not> isspace (hd core)" "\<not> isspace (last core)"
  shows "trim_whitespace (ws1 @ core @ ws2) = core"
proof -
  obtain c cs where c: "core = c # cs" using assms(3) by (cases core) auto
  obtain d ds where d: "rev core = d # ds" using assms(3) by (cases "rev core") auto
  have "\<not> isspace c" "\<not> isspace d" using assms(4,5) c d by (auto simp: hd_rev [symmetric])
  then have "dropWhile isspace (ws1 @ core @ ws2) = core @ ws2"
    using assms(1) by (simp add: c)
  moreover have "dropWhile isspace (rev (core @ ws2)) = rev core"
    unfolding rev_append d using assms(2) \<open>\<not> isspace d\<close> by (intro dropWhile_stop) auto
  ultimately show ?thesis unfolding trim_whitespace_eq by simp
qed

text \<open>trim_whitespace returns the longest core of the string that neither starts nor ends
  with white space: the input is that core surrounded by white space only.\<close>

theorem trim_whitespace_spec:
  "\<exists>ws1 ws2. s = ws1 @ trim_whitespace s @ ws2 \<and>
     list_all isspace ws1 \<and> list_all isspace ws2 \<and>
     (case trim_whitespace s of [] \<Rightarrow> True
      | c # cs \<Rightarrow> \<not> isspace c \<and> \<not> isspace (last (c # cs)))"
proof -
  define t where "t = dropWhile isspace s"
  define r where "r = rev (dropWhile isspace (rev t))"
  define w1 where "w1 = takeWhile isspace s"
  define w2 where "w2 = rev (takeWhile isspace (rev t))"
  have s: "s = w1 @ t" by (simp add: w1_def t_def)
  have t: "t = r @ w2" unfolding r_def w2_def by (metis rev_append rev_rev_ident takeWhile_dropWhile_id)
  have ws: "list_all isspace w1" "list_all isspace w2"
    by (auto simp: list_all_iff w1_def w2_def dest: set_takeWhileD)
  have ends: "\<not> isspace (hd r) \<and> \<not> isspace (last r)" if "r \<noteq> []"
  proof -
    have "dropWhile isspace (rev t) \<noteq> []" using that by (auto simp: r_def)
    from hd_dropWhile [OF this] have l: "\<not> isspace (last r)" by (simp add: r_def last_rev)
    have "t \<noteq> []" using that t by simp
    then have "\<not> isspace (hd t)" unfolding t_def by (rule hd_dropWhile)
    with l that t show ?thesis by simp
  qed
  have "trim_whitespace s = r" unfolding trim_whitespace_eq r_def t_def ..
  then show ?thesis using s t ws ends by (cases r) auto
qed

lemma parse_ull_u64 [simp]: "parse_ull (show_nat (unat (v :: u64))) = Some v"
proof -
  have "\<not> 2 ^ 64 \<le> unat v" using unsigned_less [of v, where ?'a = nat] by simp
  then show ?thesis using strtoull_show_nat [of "[]" "[]" "unat v"] by (simp add: parse_ull_def)
qed

text \<open>parse_ull reads back every decimal number below 2^64, with white space before and
  after it, and refuses every larger one.\<close>

theorem parse_ull_decimal:
  assumes "list_all isspace ws1" "list_all isspace ws2"
  shows "parse_ull (ws1 @ show_nat n @ ws2) = (if n < 2 ^ 64 then Some (of_nat n) else None)"
proof -
  have "num_end ws2"
    using assms(2) isdigit_not_isspace by (cases ws2) auto
  with assms show ?thesis
    using strtoull_show_nat [of ws1 ws2 n] by (simp add: parse_ull_def list_all_iff del: dropWhile_append2)
qed

theorem parse_ull_decimal_witness:
  "parse_ull ('' '' @ show_nat 4096 @ [LF]) = Some 4096 \<and>
   parse_ull ([] @ show_nat (2 ^ 64) @ []) = None"
  using parse_ull_decimal [of "'' ''" "[LF]" 4096] parse_ull_decimal [of "[]" "[]" "2 ^ 64"]
  by simp

text \<open>parse_ull does not refuse negative numbers: strtoull accepts a minus sign and the
  negated value wraps around, so a field holding -n is read as 2^64 - n.\<close>

theorem parse_ull_accepts_negative:
  assumes "n < 2 ^ 64"
  shows "parse_ull (CHR ''-'' # show_nat n) = Some (- of_nat n)"
  using assms by (simp add: parse_ull_def strtoull_def Let_def takeWhile_all dropWhile_all isdigit_show_nat)

theorem parse_ull_accepts_negative_witness:
  "parse_ull (CHR ''-'' # show_nat 1) = Some 18446744073709551615"
  using parse_ull_accepts_negative [of 1] by simp

lemma clamp_bounds: "lo \<le> hi \<Longrightarrow> lo \<le> clamp_double v lo hi \<and> clamp_double v lo hi \<le> hi"
  by (auto simp: clamp_double_def)

lemma clamp_id [simp]: "lo \<le> v \<Longrightarrow> v \<le> hi \<Longrightarrow> clamp_double v lo hi = v"
  by (auto simp: clamp_double_def)

text \<open>The unit \<open>format_bytes\<close> picks for an exactly represented non-negative size.\<close>

lemma scale_units_spec:
  assumes "0 \<le> v" "rnd v = v" "idx \<le> 4" "0 < idx \<longrightarrow> 1 \<le> v"
  shows "case scale_units v idx of (w, j) \<Rightarrow>
    idx \<le> j \<and> j \<le> 4 \<and> w = v / 1024 ^ (j - idx) \<and> (j < 4 \<longrightarrow> w < 1024) \<and> (0 < j \<longrightarrow> 1 \<le> w)"
  using assms
proof (induction v idx rule: scale_units.induct)
  case (1 v idx)
  show ?case
  proof (cases "v \<ge> 1024 \<and> idx < 4")
    case True
    then have d: "d_div v 1024 = v / 1024" using "1.prems"(2) by (simp add: d_div_1024)
    obtain w j where wj: "scale_units (v / 1024) (idx + 1) = (w, j)" by fastforce
    have IH: "idx + 1 \<le> j \<and> j \<le> 4 \<and> w = v / 1024 / 1024 ^ (j - (idx + 1)) \<and>
        (j < 4 \<longrightarrow> w < 1024) \<and> (0 < j \<longrightarrow> 1 \<le> w)"
    proof -
      have "0 \<le> v / 1024" "rnd (v / 1024) = v / 1024" "idx + 1 \<le> 4"
        "0 < idx + 1 \<longrightarrow> 1 \<le> v / 1024"
        using "1.prems" True by (simp_all add: rnd_div_1024)
      from "1.IH" [OF True, unfolded d, OF this] show ?thesis unfolding wj prod.case .
    qed
    then have "(1024 :: rat) ^ (j - idx) = 1024 * 1024 ^ (j - (idx + 1))"
      by (simp add: Suc_diff_Suc flip: power_Suc)
    with IH have w: "w = v / 1024 ^ (j - idx)" "idx \<le> j" by simp_all
    have "scale_units v idx = scale_units (d_div v 1024) (idx + 1)"
      using True by (subst scale_units.simps) simp
    then have "scale_units v idx = (w, j)" unfolding d wj .
    moreover have "j \<le> 4" "j < 4 \<longrightarrow> w < 1024" "0 < j \<longrightarrow> 1 \<le> w" using IH by blast+
    ultimately show ?thesis using w by (simp only: prod.case simp_thms)
  next
    case False
    with "1.prems" show ?thesis by (auto simp: scale_units.simps [of v idx])
  qed
qed

text \<open>For a non-negative size held exactly in a double, format_bytes divides by 1024 without
  any rounding error as long as the value is at least 1024 and a larger unit is left: it prints
  bytes / 1024^idx with the unit of index idx, where idx is at most 4, the printed value is below
  1024 unless the unit is T, and at least 1 for every unit but B.\<close>

theorem format_bytes_unit:
  assumes "0 \<le> bytes" "rnd bytes = bytes" "0 < bufsize"
  shows "\<exists>idx \<le> 4. format_bytes bytes bufsize = Some (copy_trunc bufsize
      (fmt_fixed (if idx = 0 then 0 else 1) (bytes / 1024 ^ idx) @ units ! idx)) \<and>
    (idx < 4 \<longrightarrow> bytes / 1024 ^ idx < 1024) \<and> (0 < idx \<longrightarrow> 1 \<le> bytes / 1024 ^ idx)"
proof -
  obtain w j where wj: "scale_units bytes 0 = (w, j)" by fastforce
  with scale_units_spec [of bytes 0] assms show ?thesis
    by (intro exI [of _ j]) (auto simp: format_bytes_def)
qed

theorem format_bytes_unit_witness:
  "\<exists>idx \<le> 4. format_bytes 1536 16 = Some (copy_trunc 16
      (fmt_fixed (if idx = 0 then 0 else 1) (1536 / 1024 ^ idx) @ units ! idx)) \<and>
    (idx < 4 \<longrightarrow> (1536 :: double) / 1024 ^ idx < 1024) \<and> (0 < idx \<longrightarrow> (1 :: double) \<le> 1536 / 1024 ^ idx)"
  by (rule format_bytes_unit) simp_all

section \<open>Timestamps\<close>

text \<open>The fields of \<^verbatim>\<open>struct tm\<close> the two \<^verbatim>\<open>strftime\<close> formats read.\<close>

record tm =
  tm_year :: int
  tm_mon :: nat
  tm_mday :: nat
  tm_hour :: nat
  tm_min :: nat
  tm_sec :: nat
  tm_gmtoff :: int
  tm_isdst :: int

definition two_digits :: "nat \<Rightarrow> cstring" where
  "two_digits n = pad_left 2 (CHR ''0'') (show_nat n)"

text \<open>\<^verbatim>\<open>"%Y-%m-%dT%H:%M:%S"\<close> and \<^verbatim>\<open>"%z"\<close>; the latter is empty when no zone is known.\<close>

definition strftime_iso :: "tm \<Rightarrow> cstring" where
  "strftime_iso t =
     show_int (tm_year t + 1900) @ ''-'' @ two_digits (tm_mon t + 1) @ ''-'' @ two_digits (tm_mday t) @
     ''T'' @ two_digits (tm_hour t) @ '':'' @ two_digits (tm_min t) @ '':'' @ two_digits (tm_sec t)"

definition off_minutes :: "tm \<Rightarrow> nat" where
  "off_minutes t = nat (\<bar>tm_gmtoff t\<bar> div 60)"

definition strftime_z :: "tm \<Rightarrow> cstring" where
  "strftime_z t =
     (if tm_isdst t < 0 then []
      else (if tm_gmtoff t < 0 then CHR ''-'' else CHR ''+'') #
        pad_left 4 (CHR ''0'') (show_nat (off_minutes t div 60 * 100 + off_minutes t mod 60)))"

text \<open>The clock wrappers: \<open>ts_ok\<close> says that the argument is not NULL, \<open>clk\<close> is what
  \<^verbatim>\<open>clock_gettime\<close> yields for \<^verbatim>\<open>CLOCK_MONOTONIC\<close> or \<^verbatim>\<open>CLOCK_REALTIME\<close>.\<close>

definition get_mono_time :: "bool \<Rightarrow> timespec option \<Rightarrow> timespec option" where
  "get_mono_time ts_ok clk = (if \<not> ts_ok then None else clk)"

definition get_wall_time :: "bool \<Rightarrow> timespec option \<Rightarrow> timespec option" where
  "get_wall_time ts_ok clk = (if \<not> ts_ok then None else clk)"

text \<open>The lines of \<^verbatim>\<open>format_rfc3339\<close> that fill \<^verbatim>\<open>tz_buf\<close>.\<close>

definition tz_bytes :: "tm \<Rightarrow> char list \<Rightarrow> char list" where
  "tz_bytes t junk =
     (let z = strftime_z t; buf = store_str z junk
      in if length z = 5 then (memmove buf 3 2 3)[3 := CHR '':'']
         else store_str ''Z'' buf)"

text \<open>\<open>ts\<close> is the argument (\<open>None\<close> for NULL) and \<open>junk\<close> the initial contents of
  \<^verbatim>\<open>tz_buf\<close>. The result is \<open>None\<close> when the final \<^verbatim>\<open>%s\<close> finds no terminator in
  \<^verbatim>\<open>tz_buf\<close>, or when the date does not fit \<^verbatim>\<open>iso_buf\<close>.\<close>

definition format_rfc3339 ::
  "(int \<Rightarrow> tm option) \<Rightarrow> char list \<Rightarrow> (int \<times> int) option \<Rightarrow> nat \<Rightarrow> cstring option" where
  "format_rfc3339 localtime junk ts bufsize =
     (if bufsize = 0 then Some []
      else case ts of
        None \<Rightarrow> Some (copy_trunc bufsize ''1970-01-01T00:00:00Z'')
      | Some (sec, nsec) \<Rightarrow>
          (case localtime sec of
             None \<Rightarrow> Some (copy_trunc bufsize ''1970-01-01T00:00:00Z'')
           | Some t \<Rightarrow>
               let iso = strftime_iso t; tz = tz_bytes t junk; msec = nat (nsec div 1000000)
               in if 32 \<le> length iso \<or> NUL \<notin> set tz then None
                  else Some (copy_trunc bufsize
                    (iso @ ''.'' @ pad_left 3 (CHR ''0'') (show_nat msec) @ cstr tz))))"

text \<open>The intended text: the offset with a colon, or Z.\<close>

definition rfc3339_offset :: "tm \<Rightarrow> cstring" where
  "rfc3339_offset t =
     (if tm_isdst t < 0 then ''Z''
      else (if tm_gmtoff t < 0 then CHR ''-'' else CHR ''+'') #
        two_digits (off_minutes t div 60) @ '':'' @ two_digits (off_minutes t mod 60))"

definition rfc3339_text :: "tm \<Rightarrow> int \<Rightarrow> cstring" where
  "rfc3339_text t nsec =
     strftime_iso t @ ''.'' @ pad_left 3 (CHR ''0'') (show_nat (nat (nsec div 1000000))) @
     rfc3339_offset t"

definition tm_valid :: "tm \<Rightarrow> bool" where
  "tm_valid t \<longleftrightarrow> 0 \<le> tm_year t + 1900 \<and> tm_year t + 1900 \<le> 9999 \<and> tm_mon t < 12 \<and>
     tm_mday t \<le> 31 \<and> tm_hour t < 24 \<and> tm_min t < 60 \<and> tm_sec t \<le> 60 \<and>
     \<bar>tm_gmtoff t\<bar> < 100 * 3600 \<and> 0 \<le> tm_isdst t"

lemma digit_char_0: "digit_char 0 = CHR ''0''"
  by code_simp

lemma show_nat_digit: "d < 10 \<Longrightarrow> show_nat d = [digit_char d]"
  by (simp add: show_nat.simps)

lemma pad_left_show_nat:
  "0 < k \<Longrightarrow> pad_left (Suc k) (CHR ''0'') (show_nat n) =
     pad_left k (CHR ''0'') (show_nat (n div 10)) @ [digit_char (n mod 10)]"
proof (cases "n < 10")
  case True
  assume "0 < k"
  then obtain j where "k = Suc j" by (cases k) auto
  moreover have "replicate j (CHR ''0'') @ [CHR ''0''] = CHR ''0'' # replicate j (CHR ''0'')"
    by (simp add: replicate_append_same)
  ultimately show ?thesis
    using True by (simp add: pad_left_def show_nat_digit digit_char_0)
next
  case False
  then show ?thesis by (simp add: pad_left_def show_nat.simps [of n])
qed

lemma pad_left_1: "pad_left (Suc 0) c (show_nat n) = show_nat n"
proof -
  have "Suc 0 \<le> length (show_nat n)" by (simp only: Suc_le_eq length_greater_0_conv show_nat_not_Nil not_False_eq_True)
  then show ?thesis by (simp add: pad_left_def)
qed

lemma pad_left_single [simp]: "pad_left (Suc 0) c [x] = [x]"
  by (simp add: pad_left_def)

lemma two_digits_eq: "n < 100 \<Longrightarrow> two_digits n = [digit_char (n div 10), digit_char (n mod 10)]"
  unfolding two_digits_def numeral_2_eq_2
  by (simp add: pad_left_show_nat pad_left_1 show_nat_digit)

lemma four_digits:
  assumes "h < 100" "m < 100"
  shows "pad_left 4 (CHR ''0'') (show_nat (h * 100 + m)) = two_digits h @ two_digits m"
proof -
  let ?n = "h * 100 + m"
  have d: "?n div 10 div 10 = h" "?n div 10 mod 10 = m div 10" "?n mod 10 = m mod 10"
  proof -
    have n: "?n div 10 = m div 10 + h * 10" "?n = m + h * 10 * 10" by simp_all
    have "m div 10 < 10" using assms by (simp add: less_mult_imp_div_less)
    then show "?n div 10 div 10 = h" "?n div 10 mod 10 = m div 10" unfolding n(1) by simp_all
    show "?n mod 10 = m mod 10" unfolding n(2) by (rule mod_mult_self1)
  qed
  have "(4 :: nat) = Suc (Suc 2)" by simp
  then have "pad_left 4 (CHR ''0'') (show_nat ?n) =
      pad_left (Suc 2) (CHR ''0'') (show_nat (?n div 10)) @ [digit_char (?n mod 10)]"
    by (simp only: pad_left_show_nat zero_less_Suc)
  also have "pad_left (Suc 2) (CHR ''0'') (show_nat (?n div 10)) =
      two_digits (?n div 10 div 10) @ [digit_char (?n div 10 mod 10)]"
    unfolding two_digits_def by (rule pad_left_show_nat) simp
  finally show ?thesis unfolding d using two_digits_eq [OF assms(2)] by simp
qed

lemma off_minutes_bounds:
  assumes "tm_valid t"
  shows "off_minutes t div 60 < 100" "off_minutes t mod 60 < 100"
proof -
  have "\<bar>tm_gmtoff t\<bar> < 360000" using assms by (simp add: tm_valid_def)
  moreover have "x div 60 < 6000" if "x < 360000" for x :: int using that by linarith
  ultimately have "\<bar>tm_gmtoff t\<bar> div 60 < 6000" by blast
  then have "off_minutes t < 6000" by (simp add: off_minutes_def nat_less_iff)
  then show "off_minutes t div 60 < 100" by (simp add: less_mult_imp_div_less)
  show "off_minutes t mod 60 < 100" using mod_less_divisor [of 60 "off_minutes t"] by linarith
qed

lemma digit_char_not_NUL [simp]: "d < 10 \<Longrightarrow> digit_char d \<noteq> NUL"
  using isdigit_digit_char [of d] by (metis isdigit_consts(1))

text \<open>What the misplaced \<^verbatim>\<open>memmove\<close> does to a five-character offset.\<close>

lemma colon_insertion:
  "(memmove (store_str [s, a, b, c, d] junk) 3 2 3)[3 := CHR '':''] =
     [s, a, b, CHR '':'', c, d] @ drop 6 junk"
  by (simp add: memmove_def store_str_def eval_nat_numeral)

lemma tz_bytes_valid:
  assumes "tm_valid t"
  shows "tz_bytes t junk = rfc3339_offset t @ drop 6 junk" and "no_nul (rfc3339_offset t)"
proof -
  let ?h = "off_minutes t div 60" and ?m = "off_minutes t mod 60"
  note b = off_minutes_bounds [OF assms]
  have z: "strftime_z t = (if tm_gmtoff t < 0 then CHR ''-'' else CHR ''+'') #
      two_digits ?h @ two_digits ?m"
    using assms b by (simp add: strftime_z_def four_digits tm_valid_def)
  have o: "rfc3339_offset t = (if tm_gmtoff t < 0 then CHR ''-'' else CHR ''+'') #
      two_digits ?h @ '':'' @ two_digits ?m"
    using assms by (simp add: rfc3339_offset_def tm_valid_def)
  show "tz_bytes t junk = rfc3339_offset t @ drop 6 junk"
    unfolding tz_bytes_def z o two_digits_eq [OF b(1)] two_digits_eq [OF b(2)]
    by (simp add: colon_insertion)
  show "no_nul (rfc3339_offset t)"
    unfolding o two_digits_eq [OF b(1)] two_digits_eq [OF b(2)] using b by auto
qed

lemma length_strftime_iso: "tm_valid t \<Longrightarrow> length (strftime_iso t) < 32"
proof -
  assume v: "tm_valid t"
  have "length (show_int (tm_year t + 1900)) \<le> 4"
    using v length_show_nat [of "nat (tm_year t + 1900)" 4] by (simp add: show_int_def tm_valid_def nat_less_iff)
  then show ?thesis using v by (simp add: strftime_iso_def tm_valid_def two_digits_eq)
qed

lemma format_rfc3339_bytes:
  assumes "localtime sec = Some t" "tm_valid t" "0 < bufsize"
  shows "format_rfc3339 localtime junk (Some (sec, nsec)) bufsize =
    (if NUL \<in> set (drop 6 junk)
     then Some (copy_trunc bufsize (rfc3339_text t nsec @ cstr (drop 6 junk))) else None)"
proof -
  note tz = tz_bytes_valid(1) [OF assms(2), of junk] tz_bytes_valid(2) [OF assms(2)]
  have "NUL \<in> set (tz_bytes t junk) \<longleftrightarrow> NUL \<in> set (drop 6 junk)"
    using tz by (auto simp: no_nul_def)
  moreover have "cstr (tz_bytes t junk) = rfc3339_offset t @ cstr (drop 6 junk)"
    using tz(2) unfolding tz(1) cstr_def no_nul_def by (subst takeWhile_append2) auto
  ultimately show ?thesis
    using assms length_strftime_iso [OF assms(2)]
    by (simp add: format_rfc3339_def rfc3339_text_def Let_def)
qed

text \<open>C40: The timestamp is built in a 16-byte stack buffer whose terminator is overwritten: the
  memmove that makes room for the colon copies the bytes 2 to 4 and not the bytes 3 to 5, so the
  NUL written by strftime is lost. The result is the RFC 3339 text followed by whatever the
  uninitialised bytes from index 6 on hold up to their first NUL, and the call reads past the
  buffer when they hold none.\<close>

theorem format_rfc3339_tail:
  assumes "localtime sec = Some t" "tm_valid t" "0 < bufsize"
  shows "format_rfc3339 localtime junk (Some (sec, nsec)) bufsize =
    (if NUL \<in> set (drop 6 junk)
     then Some (copy_trunc bufsize (rfc3339_text t nsec @ cstr (drop 6 junk))) else None)"
  using assms by (rule format_rfc3339_bytes)

definition demo_tm :: tm where
  "demo_tm = \<lparr>tm_year = 126, tm_mon = 3, tm_mday = 28, tm_hour = 14, tm_min = 23, tm_sec = 1,
              tm_gmtoff = 7200, tm_isdst = 1\<rparr>"

lemma demo_tm_valid: "tm_valid demo_tm"
  by (simp add: demo_tm_def tm_valid_def)

lemma demo_text: "rfc3339_text demo_tm 234000000 = ''2026-04-28T14:23:01.234+02:00''"
  by code_simp

theorem format_rfc3339_tail_witness:
  "format_rfc3339 (\<lambda>_. Some demo_tm) (replicate 16 NUL) (Some (0, 234000000)) 64 =
     Some ''2026-04-28T14:23:01.234+02:00'' \<and>
   format_rfc3339 (\<lambda>_. Some demo_tm) (replicate 6 NUL @ ''zz'' @ replicate 8 NUL)
     (Some (0, 234000000)) 64 = Some ''2026-04-28T14:23:01.234+02:00zz'' \<and>
   format_rfc3339 (\<lambda>_. Some demo_tm) (replicate 16 (CHR ''z'')) (Some (0, 234000000)) 64 = None"
  using format_rfc3339_tail [of "\<lambda>_. Some demo_tm" 0 demo_tm 64 "replicate 16 NUL" 234000000]
    format_rfc3339_tail [of "\<lambda>_. Some demo_tm" 0 demo_tm 64
      "replicate 6 NUL @ ''zz'' @ replicate 8 NUL" 234000000]
    format_rfc3339_tail [of "\<lambda>_. Some demo_tm" 0 demo_tm 64 "replicate 16 (CHR ''z'')" 234000000]
  by (simp add: demo_tm_valid demo_text cstr_def)

text \<open>The caller's buffer always receives a C string that fits it.\<close>

lemma format_rfc3339_fits:
  "format_rfc3339 localtime junk ts bufsize = Some s \<Longrightarrow> 0 < bufsize \<Longrightarrow> length s < bufsize"
  by (auto simp: format_rfc3339_def Let_def length_copy_trunc split: option.splits if_splits)

end
