(* ===== verification/Output.thy ===== *)
theory Output
  imports Config_State Utils "HOL-Library.Sublist"
begin

text \<open>
  The output layer of \<^verbatim>\<open>src/output.c\<close>: standard output, a file, or batches of events
  posted over HTTP.

  The record \<open>output_state\<close> is the static \<^verbatim>\<open>g_output\<close>; its array \<^verbatim>\<open>batch_items\<close> is
  a list of slots, \<open>None\<close> where the C array holds NULL. What the code does to the outside is
  recorded in \<open>output_world\<close>, and what the outside answers (allocations, the clock, libcurl,
  the environment) is an \<open>output_env\<close>: each call is answered by a function of the number of
  calls made before it, so nothing is assumed about it. Return codes are 0 and -1.
\<close>

section \<open>State\<close>

datatype output_mode = OUTPUT_STDOUT | OUTPUT_FILE | OUTPUT_HTTP_POST

record output_state =
  g_mode :: output_mode
  g_file_handle :: "cstring option" \<comment> \<open>the path of the open file\<close>
  g_output_path :: cstring
  g_output_url :: cstring
  g_auth_header :: cstring
  g_batch_size :: int
  g_batch_interval_seconds :: int
  g_retry_max_attempts :: int
  g_retry_backoff_seconds :: int
  g_batch_items :: "cstring option list option"
  g_batch_count :: nat
  g_batch_capacity :: nat
  g_batch_started_at :: timespec
  g_batch_started :: bool
  g_curl_ready :: bool

text \<open>\<^verbatim>\<open>memset(&g_output, 0, sizeof(g_output))\<close>\<close>

definition zero_output :: output_state where
  "zero_output =
     \<lparr>g_mode = OUTPUT_STDOUT, g_file_handle = None, g_output_path = [], g_output_url = [],
      g_auth_header = [], g_batch_size = 0, g_batch_interval_seconds = 0,
      g_retry_max_attempts = 0, g_retry_backoff_seconds = 0, g_batch_items = None,
      g_batch_count = 0, g_batch_capacity = 0, g_batch_started_at = \<lparr>tv_sec = 0, tv_nsec = 0\<rparr>,
      g_batch_started = False, g_curl_ready = False\<rparr>"

record http_request =
  req_url :: cstring
  req_headers :: "cstring list"
  req_body :: cstring

text \<open>A transfer fails or ends with a status code and the chunks of the response body.\<close>

datatype curl_result = CurlFail | CurlDone int "char list list"

record output_env =
  env_alloc :: "nat \<Rightarrow> bool"
  env_clock :: "nat \<Rightarrow> timespec option"
  env_curl_global :: bool
  env_curl_init :: "nat \<Rightarrow> bool"
  env_perform :: "nat \<Rightarrow> http_request \<Rightarrow> curl_result"
  env_fopen :: "cstring \<Rightarrow> bool"
  env_fflush :: "nat \<Rightarrow> bool"
  env_getenv :: "cstring \<Rightarrow> cstring option"

text \<open>\<open>w_calls\<close> counts the calls answered so far. A sleep of \<open>None\<close> is one whose length is
  undefined.\<close>

record output_world =
  w_calls :: nat
  w_stdout :: "char list"
  w_file :: "char list"
  w_posts :: "http_request list"
  w_sleeps :: "u32 option list"
  w_stderr :: "char list"

definition called :: "output_world \<Rightarrow> output_world" where
  "called w = w\<lparr>w_calls := Suc (w_calls w)\<rparr>"

definition eprint :: "cstring \<Rightarrow> output_world \<Rightarrow> output_world" where
  "eprint s w = w\<lparr>w_stderr := w_stderr w @ s\<rparr>"

section \<open>The batch\<close>

definition free_batch_items :: "output_state \<Rightarrow> output_state" where
  "free_batch_items g =
     g\<lparr>g_batch_items :=
         map_option (\<lambda>items. fold (\<lambda>i xs. xs[i := None]) [0..<g_batch_count g] items) (g_batch_items g),
       g_batch_count := 0, g_batch_started := False\<rparr>"

definition batch_reset :: "output_env \<Rightarrow> output_state \<Rightarrow> output_world \<Rightarrow> output_state \<times> output_world" where
  "batch_reset env g w =
     (let g = free_batch_items g
      in if g_batch_capacity g = 0 then
           (g\<lparr>g_batch_capacity := 16,
              g_batch_items := (if env_alloc env (w_calls w) then Some (replicate 16 None) else None)\<rparr>,
            called w)
         else (g, w))"

text \<open>The doubling loop. The C loop would not end on capacity 0, which its caller excludes.\<close>

function grow_capacity :: "nat \<Rightarrow> nat \<Rightarrow> nat" where
  "grow_capacity new_capacity needed =
     (if new_capacity < needed \<and> new_capacity \<noteq> 0 then grow_capacity (new_capacity * 2) needed
      else new_capacity)"
  by pat_completeness auto
termination by (relation "measure (\<lambda>(c, n). n - c)") auto

declare grow_capacity.simps [simp del]

definition batch_ensure_capacity ::
  "output_env \<Rightarrow> nat \<Rightarrow> output_state \<Rightarrow> output_world \<Rightarrow> rc \<times> output_state \<times> output_world" where
  "batch_ensure_capacity env needed g w =
     (if needed \<le> g_batch_capacity g then (0, g, w)
      else
        let new_capacity =
              grow_capacity (if g_batch_capacity g = 0 then 16 else g_batch_capacity g) needed
        in if \<not> env_alloc env (w_calls w) then (-1, g, called w)
           else (0, g\<lparr>g_batch_items :=
                        Some ((case g_batch_items g of None \<Rightarrow> [] | Some items \<Rightarrow> items) @
                              replicate (new_capacity - g_batch_capacity g) None),
                      g_batch_capacity := new_capacity\<rparr>, called w))"

definition seconds_of :: "timespec \<Rightarrow> double" where
  "seconds_of t = d_add (d_of_int (tv_sec t)) (d_div (d_of_int (tv_nsec t)) 1000000000)"

definition batch_age_seconds :: "output_env \<Rightarrow> output_state \<Rightarrow> output_world \<Rightarrow> double \<times> output_world" where
  "batch_age_seconds env g w =
     (if \<not> g_batch_started g then (0, w)
      else (case get_mono_time True (env_clock env (w_calls w)) of
              None \<Rightarrow> (0, called w)
            | Some now \<Rightarrow> (d_sub (seconds_of now) (seconds_of (g_batch_started_at g)), called w)))"

definition batch_start_if_needed ::
  "output_env \<Rightarrow> output_state \<Rightarrow> output_world \<Rightarrow> output_state \<times> output_world" where
  "batch_start_if_needed env g w =
     (if g_batch_started g then (g, w)
      else (case env_clock env (w_calls w) of
              None \<Rightarrow> (g, called w)
            | Some t \<Rightarrow> (g\<lparr>g_batch_started_at := t, g_batch_started := True\<rparr>, called w)))"

section \<open>Posting\<close>

record response_buf =
  resp_data :: "char list" \<comment> \<open>the array \<^verbatim>\<open>char data[2048]\<close>\<close>
  resp_len :: nat

text \<open>The write callback: the result is what it tells libcurl, \<^verbatim>\<open>size * nmemb\<close>.\<close>

definition write_response_cb :: "char list \<Rightarrow> response_buf \<Rightarrow> nat \<times> response_buf" where
  "write_response_cb chunk buf =
     (let space = 2048 - resp_len buf - 1;
          bytes = (if length chunk > space then space else length chunk);
          data = take (resp_len buf) (resp_data buf) @ take bytes chunk @
                 drop (resp_len buf + bytes) (resp_data buf);
          len = resp_len buf + bytes
      in (length chunk, buf\<lparr>resp_data := data[len := NUL], resp_len := len\<rparr>))"

text \<open>The buffer an attempt starts with (its other bytes indeterminate), and its contents after the
  chunks of a response.\<close>

definition fresh_response :: response_buf where
  "fresh_response = \<lparr>resp_data = (replicate 2048 (CHR ''?''))[0 := NUL], resp_len = 0\<rparr>"

definition response_text :: "char list list \<Rightarrow> cstring" where
  "response_text chunks =
     cstr (resp_data (fold (\<lambda>c b. snd (write_response_cb c b)) chunks fresh_response))"

text \<open>The items in the array, the size computed for the body, and the loop that builds it.\<close>

definition batch_list :: "output_state \<Rightarrow> cstring list" where
  "batch_list g =
     (case g_batch_items g of
        None \<Rightarrow> []
      | Some items \<Rightarrow> map the (take (g_batch_count g) items))"

definition body_len :: "cstring list \<Rightarrow> nat" where
  "body_len items = fold (\<lambda>s n. n + (length s + 1)) items 2"

fun body_loop :: "cstring \<Rightarrow> cstring list \<Rightarrow> cstring" where
  "body_loop body [] = body"
| "body_loop body (s # rest) = body_loop (body @ s @ (if rest \<noteq> [] then '','' else [])) rest"

definition http_body :: "cstring list \<Rightarrow> cstring" where
  "http_body items = body_loop ''['' items @ '']''"

text \<open>\<^verbatim>\<open>curl_slist_append\<close> and \<^verbatim>\<open>curl_easy_setopt\<close> are taken not to fail. The code ignores
  their results: when one of them fails for lack of memory, a request would go out without the
  header or the option concerned.\<close>

definition http_request :: "output_state \<Rightarrow> cstring \<Rightarrow> http_request" where
  "http_request g body =
     \<lparr>req_url = g_output_url g,
      req_headers = [''Content-Type: application/json''] @
        (if g_auth_header g \<noteq> [] then [g_auth_header g] else []),
      req_body = body\<rparr>"

text \<open>\<^verbatim>\<open>unsigned int\<close> backoff. Shifting by the width or more is undefined.\<close>

definition backoff :: "int \<Rightarrow> nat \<Rightarrow> u32 option" where
  "backoff retry_backoff_seconds attempt =
     (if attempt \<ge> 32 then None
      else
        let b = word_of_int retry_backoff_seconds;
            b = (if b = 0 then 1 else b);
            b = push_bit attempt b
        in Some (if b > 60 then 60 else b))"

definition backoff_sleep :: "output_state \<Rightarrow> nat \<Rightarrow> output_world \<Rightarrow> output_world" where
  "backoff_sleep g attempt w =
     (if int attempt < g_retry_max_attempts g
      then w\<lparr>w_sleeps := w_sleeps w @ [backoff (g_retry_backoff_seconds g) attempt]\<rparr>
      else w)"

definition client_error_text :: "int \<Rightarrow> char list list \<Rightarrow> cstring \<Rightarrow> cstring" where
  "client_error_text code chunks body =
     ''syswatch: dropping HTTP batch due to client error '' @ show_int code @ [LF] @
     ''syswatch: response body: '' @ response_text chunks @ [LF] @
     ''syswatch: request body ('' @ show_nat (length body) @ '' bytes): '' @ take 500 body @
     (if length body > 500 then ''...'' else []) @ [LF]"

function post_attempts ::
  "output_env \<Rightarrow> cstring \<Rightarrow> nat \<Rightarrow> output_state \<Rightarrow> output_world \<Rightarrow> rc \<times> output_state \<times> output_world" where
  "post_attempts env body attempt g w =
     (if int attempt > g_retry_max_attempts g then
        (-1, free_batch_items g,
         eprint (''syswatch: dropping HTTP batch after '' @ show_int (g_retry_max_attempts g) @
                 '' retries'' @ [LF]) w)
      else
        let req = http_request g body;
            w1 = called (w\<lparr>w_posts := w_posts w @ [req]\<rparr>);
            retry = post_attempts env body (Suc attempt) g (backoff_sleep g attempt w1)
        in (case env_perform env (w_calls w) req of
              CurlFail \<Rightarrow> retry
            | CurlDone code chunks \<Rightarrow>
                if code \<ge> 200 \<and> code < 300 then (0, free_batch_items g, w1)
                else if code \<ge> 400 \<and> code < 500 \<and> code \<noteq> 429 then
                  (0, free_batch_items g, eprint (client_error_text code chunks body) w1)
                else retry))"
  by pat_completeness auto
termination
  by (relation "measure (\<lambda>(_, _, attempt, g, _). nat (g_retry_max_attempts g + 1 - int attempt))") auto

declare post_attempts.simps [simp del]

definition http_post_batch ::
  "output_env \<Rightarrow> output_state \<Rightarrow> output_world \<Rightarrow> rc \<times> output_state \<times> output_world" where
  "http_post_batch env g w =
     (if g_batch_count g = 0 then (0, g, w)
      else if \<not> env_alloc env (w_calls w) then (-1, g, called w)
      else
        let body = http_body (batch_list g); w = called w
        in if \<not> env_curl_init env (w_calls w) then (-1, g, called w)
           else post_attempts env body 0 g (called w))"

definition maybe_flush_http_batch ::
  "output_env \<Rightarrow> output_state \<Rightarrow> output_world \<Rightarrow> rc \<times> output_state \<times> output_world" where
  "maybe_flush_http_batch env g w =
     (if g_batch_count g = 0 then (0, g, w)
      else if int (g_batch_count g) \<ge> g_batch_size g then http_post_batch env g w
      else if g_batch_started g \<and> g_batch_interval_seconds g > 0 then
        (let (age, w) = batch_age_seconds env g w
         in if age \<ge> d_of_int (g_batch_interval_seconds g) then http_post_batch env g w
            else (0, g, w))
      else (0, g, w))"

section \<open>The interface\<close>

datatype output_error =
    OutNullConfig
  | OutPathRequired
  | OutOpenFailed cstring
  | OutUrlRequired
  | OutCurlInit
  | OutBatchBuffer
  | OutUnknownType cstring

fun output_error_message :: "output_error \<Rightarrow> cstring" where
  "output_error_message OutNullConfig = ''output error: null config''"
| "output_error_message OutPathRequired = ''output error: output.path required for file output''"
| "output_error_message (OutOpenFailed p) =
     copy_trunc 512 (''output error: failed to open '' @ CHR 0x27 # p @ [CHR 0x27])"
| "output_error_message OutUrlRequired = ''output error: output.url required for http_post''"
| "output_error_message OutCurlInit = ''output error: failed to initialize libcurl''"
| "output_error_message OutBatchBuffer = ''output error: failed to allocate HTTP batch buffer''"
| "output_error_message (OutUnknownType t) =
     copy_trunc 256 (''output error: unknown output.type '' @ CHR 0x27 # t @ [CHR 0x27])"

text \<open>The settings taken from the configuration, whatever the mode.\<close>

definition output_settings :: "syswatch_config \<Rightarrow> output_state" where
  "output_settings cfg = zero_output
     \<lparr>g_mode := OUTPUT_STDOUT,
      g_batch_size := (if output_batch_size cfg > 0 then output_batch_size cfg else 50),
      g_batch_interval_seconds :=
        (if output_batch_interval_seconds cfg > 0 then output_batch_interval_seconds cfg else 2),
      g_retry_max_attempts :=
        (if output_retry_max_attempts cfg \<ge> 0 then output_retry_max_attempts cfg else 5),
      g_retry_backoff_seconds :=
        (if output_retry_backoff_seconds cfg \<ge> 0 then output_retry_backoff_seconds cfg else 1)\<rparr>"

definition init_file ::
  "output_env \<Rightarrow> syswatch_config \<Rightarrow> output_state \<Rightarrow> output_world
     \<Rightarrow> output_error option \<times> output_state \<times> output_world" where
  "init_file env cfg g w =
     (if output_path cfg = [] then (Some OutPathRequired, g, w)
      else if \<not> env_fopen env (output_path cfg) then (Some (OutOpenFailed (output_path cfg)), g, w)
      else
        let g = g\<lparr>g_file_handle := Some (output_path cfg), g_mode := OUTPUT_FILE,
                   g_output_path := copy_trunc 256 (output_path cfg)\<rparr>
        in (None, g, eprint (''syswatch: output_init selected file -> '' @ g_output_path g @ [LF]) w))"

definition init_http ::
  "output_env \<Rightarrow> syswatch_config \<Rightarrow> output_state \<Rightarrow> output_world
     \<Rightarrow> output_error option \<times> output_state \<times> output_world" where
  "init_http env cfg g w =
     (let env_url = env_getenv env ''PULSE_RECEIVER_URL'';
          env_auth = env_getenv env ''PULSE_AUTH_HEADER''
      in if output_url cfg = [] \<and> env_url = None then (Some OutUrlRequired, g, w)
         else if \<not> env_curl_global env then (Some OutCurlInit, g, w)
         else
           let g = g\<lparr>g_mode := OUTPUT_HTTP_POST, g_curl_ready := True,
                      g_output_url := copy_trunc 256 (case env_url of Some u \<Rightarrow> u | None \<Rightarrow> output_url cfg)\<rparr>;
               g = (case env_auth of
                      Some a \<Rightarrow> g\<lparr>g_auth_header := copy_trunc 256 a\<rparr>
                    | None \<Rightarrow>
                        if output_auth_header cfg \<noteq> []
                        then g\<lparr>g_auth_header := copy_trunc 256 (output_auth_header cfg)\<rparr>
                        else g);
               w = (if env_url \<noteq> None \<or> env_auth \<noteq> None then
                      eprint (''syswatch: env overrides applied (url='' @
                        (if env_url \<noteq> None then ''env'' else ''config'') @ '', auth='' @
                        (if env_auth \<noteq> None then ''env'' else ''config'') @ '')'' @ [LF]) w
                    else w);
               w = eprint (''syswatch: output_init selected http_post -> '' @ g_output_url g @ [LF]) w;
               (g, w) = batch_reset env g w
           in if g_batch_items g = None then (Some OutBatchBuffer, zero_output, w)
              else (None, g, w))"

text \<open>The error is \<open>None\<close> when \<^verbatim>\<open>output_init\<close> returns 0, and the text it stores in
  \<^verbatim>\<open>*err\<close> with -1 otherwise.\<close>

definition output_init ::
  "output_env \<Rightarrow> syswatch_config option \<Rightarrow> output_state \<Rightarrow> output_world
     \<Rightarrow> output_error option \<times> output_state \<times> output_world" where
  "output_init env cfgp g w =
     (case cfgp of
        None \<Rightarrow> (Some OutNullConfig, g, w)
      | Some cfg \<Rightarrow>
          let g = output_settings cfg
          in if output_type cfg = [] \<or> output_type cfg = ''stdout'' then
               (None, g\<lparr>g_mode := OUTPUT_STDOUT\<rparr>,
                eprint (''syswatch: output_init selected stdout'' @ [LF]) w)
             else if output_type cfg = ''file'' then init_file env cfg g w
             else if output_type cfg = ''http_post'' then init_http env cfg g w
             else (Some (OutUnknownType (output_type cfg)), g, w))"

definition emit_http ::
  "output_env \<Rightarrow> cstring \<Rightarrow> output_state \<Rightarrow> output_world \<Rightarrow> rc \<times> output_state \<times> output_world" where
  "emit_http env json_line g w =
     (let (rc, g, w) = maybe_flush_http_batch env g w
      in if rc \<noteq> 0 then (-1, g, w)
         else
           let (g, w) = batch_start_if_needed env g w;
               (rc, g, w) = batch_ensure_capacity env (g_batch_count g + 1) g w
           in if rc \<noteq> 0 then (-1, g, w)
              else if \<not> env_alloc env (w_calls w) then (-1, g, called w)
              else
                let g = g\<lparr>g_batch_items :=
                             map_option (\<lambda>items. items[g_batch_count g := Some json_line]) (g_batch_items g),
                           g_batch_count := g_batch_count g + 1\<rparr>;
                    w = called w
                in if int (g_batch_count g) \<ge> g_batch_size g then http_post_batch env g w
                   else (0, g, w))"

definition output_emit_event ::
  "output_env \<Rightarrow> cstring option \<Rightarrow> output_state \<Rightarrow> output_world \<Rightarrow> rc \<times> output_state \<times> output_world" where
  "output_emit_event env linep g w =
     (case linep of
        None \<Rightarrow> (-1, g, w)
      | Some json_line \<Rightarrow>
          (case g_mode g of
             OUTPUT_STDOUT \<Rightarrow> (0, g, w\<lparr>w_stdout := w_stdout w @ json_line @ [LF]\<rparr>)
           | OUTPUT_FILE \<Rightarrow>
               if g_file_handle g = None then (-1, g, w)
               else (0, g, called (w\<lparr>w_file := w_file w @ json_line @ [LF]\<rparr>))
           | OUTPUT_HTTP_POST \<Rightarrow> emit_http env json_line g w))"

definition output_flush ::
  "output_env \<Rightarrow> output_state \<Rightarrow> output_world \<Rightarrow> rc \<times> output_state \<times> output_world" where
  "output_flush env g w =
     (if g_mode g = OUTPUT_FILE \<and> g_file_handle g \<noteq> None then
        ((if env_fflush env (w_calls w) then 0 else -1), g, called w)
      else if g_mode g = OUTPUT_HTTP_POST then http_post_batch env g w
      else (0, g, w))"

definition output_shutdown ::
  "output_env \<Rightarrow> output_state \<Rightarrow> output_world \<Rightarrow> output_state \<times> output_world" where
  "output_shutdown env g w =
     (let (_, g, w) = output_flush env g w;
          g = (if g_file_handle g \<noteq> None then g\<lparr>g_file_handle := None\<rparr> else g);
          g = (if g_batch_items g \<noteq> None
               then (free_batch_items g)\<lparr>g_batch_items := None\<rparr> else g);
          g = (if g_curl_ready g then g\<lparr>g_curl_ready := False\<rparr> else g)
      in (zero_output\<lparr>g_mode := OUTPUT_STDOUT\<rparr>, w))"

text \<open>\<^verbatim>\<open>output_get_mode\<close>: the number of the enumerator.\<close>

definition output_get_mode :: "output_state \<Rightarrow> int" where
  "output_get_mode g =
     (case g_mode g of OUTPUT_STDOUT \<Rightarrow> 0 | OUTPUT_FILE \<Rightarrow> 1 | OUTPUT_HTTP_POST \<Rightarrow> 2)"

section \<open>The array of items\<close>

text \<open>The array has \<open>g_batch_capacity\<close> slots, at least 16, of which exactly the first
  \<open>g_batch_count\<close> are in use. \<open>batch_ready\<close> says that it is allocated.\<close>

definition slots_ok :: "nat \<Rightarrow> nat \<Rightarrow> cstring option list \<Rightarrow> bool" where
  "slots_ok count capacity items \<longleftrightarrow>
     length items = capacity \<and> 16 \<le> capacity \<and> count \<le> capacity \<and>
     items = map Some (map the (take count items)) @ replicate (capacity - count) None"

definition batch_ready :: "output_state \<Rightarrow> bool" where
  "batch_ready g \<longleftrightarrow>
     (\<exists>items. g_batch_items g = Some items \<and> slots_ok (g_batch_count g) (g_batch_capacity g) items)"

lemma slots_ok_intro:
  "length xs \<le> capacity \<Longrightarrow> 16 \<le> capacity \<Longrightarrow>
     slots_ok (length xs) capacity (map Some xs @ replicate (capacity - length xs) None)"
  by (simp add: slots_ok_def comp_def)

lemma slots_ok_cases:
  assumes "slots_ok count capacity items"
  obtains xs where "items = map Some xs @ replicate (capacity - length xs) None" "count = length xs"
    "length xs \<le> capacity" "16 \<le> capacity" "map the (take count items) = xs"
  using assms that [of "map the (take count items)"]
  by (auto simp: slots_ok_def min_def)

lemma batch_ready_iff:
  "batch_ready g \<longleftrightarrow>
     g_batch_items g = Some (map Some (batch_list g) @ replicate (g_batch_capacity g - length (batch_list g)) None) \<and>
     g_batch_count g = length (batch_list g) \<and> g_batch_count g \<le> g_batch_capacity g \<and> 16 \<le> g_batch_capacity g"
  (is "?l = ?r")
proof
  assume ?l
  then obtain items where "g_batch_items g = Some items" "slots_ok (g_batch_count g) (g_batch_capacity g) items"
    by (auto simp: batch_ready_def)
  then show ?r by (elim slots_ok_cases) (simp add: batch_list_def)
next
  assume ?r
  then show ?l unfolding batch_ready_def using slots_ok_intro [of "batch_list g" "g_batch_capacity g"]
    by (intro exI [of _ "map Some (batch_list g) @ replicate (g_batch_capacity g - length (batch_list g)) None"])
      simp
qed

lemma clear_slots: "n \<le> length xs \<Longrightarrow> fold (\<lambda>i xs. xs[i := None]) [0..<n] xs = replicate n None @ drop n xs"
proof (induction n)
  case (Suc n)
  then show ?case
    by (simp add: list_update_append replicate_append_same Cons_nth_drop_Suc [symmetric])
qed simp

text \<open>What only \<open>output_init\<close> and \<open>output_shutdown\<close> write.\<close>

definition output_static ::
  "output_state \<Rightarrow> output_mode \<times> cstring option \<times> cstring \<times> cstring \<times> cstring \<times> int \<times> int \<times> int \<times> int \<times> bool" where
  "output_static g =
     (g_mode g, g_file_handle g, g_output_path g, g_output_url g, g_auth_header g, g_batch_size g,
      g_batch_interval_seconds g, g_retry_max_attempts g, g_retry_backoff_seconds g, g_curl_ready g)"

lemma output_static_eq:
  "output_static g' = output_static g \<Longrightarrow> g_mode g' = g_mode g \<and> g_batch_size g' = g_batch_size g \<and>
     g_retry_max_attempts g' = g_retry_max_attempts g \<and>
     g_retry_backoff_seconds g' = g_retry_backoff_seconds g \<and>
     g_batch_interval_seconds g' = g_batch_interval_seconds g \<and>
     g_file_handle g' = g_file_handle g \<and> http_request g' = http_request g"
  by (auto simp: output_static_def http_request_def fun_eq_iff)

lemma free_batch_static [simp]: "output_static (free_batch_items g) = output_static g"
  by (simp add: free_batch_items_def output_static_def)

lemma free_batch_list [simp]: "batch_list (free_batch_items g) = []"
  by (simp add: free_batch_items_def batch_list_def split: option.split)

lemma free_batch_ready [simp]: "batch_ready g \<Longrightarrow> batch_ready (free_batch_items g)"
proof -
  assume r: "batch_ready g"
  let ?xs = "map Some (batch_list g) @ replicate (g_batch_capacity g - length (batch_list g)) None"
  have r': "g_batch_items g = Some ?xs" "g_batch_count g = length (batch_list g)"
    "length (batch_list g) \<le> g_batch_capacity g" "16 \<le> g_batch_capacity g"
    using r by (auto simp: batch_ready_iff)
  then have "fold (\<lambda>i xs. xs[i := None]) [0..<g_batch_count g] ?xs = replicate (g_batch_capacity g) None"
    by (subst clear_slots) (simp_all flip: replicate_add)
  then have "g_batch_items (free_batch_items g) = Some (replicate (g_batch_capacity g) None)"
    unfolding free_batch_items_def using r'(1) by (simp only: option.map output_state.simps) simp
  moreover have "g_batch_count (free_batch_items g) = 0"
    "g_batch_capacity (free_batch_items g) = g_batch_capacity g"
    by (simp_all add: free_batch_items_def)
  ultimately show ?thesis using r'(4) by (simp add: batch_ready_iff)
qed

lemma free_batch_count [simp]: "g_batch_count (free_batch_items g) = 0"
  by (simp add: free_batch_items_def)

lemma batch_count_list: "batch_ready g \<Longrightarrow> g_batch_count g = length (batch_list g)"
  by (simp add: batch_ready_iff)

lemma batch_list_Nil: "batch_ready g \<Longrightarrow> g_batch_count g = 0 \<longleftrightarrow> batch_list g = []"
  by (simp add: batch_count_list)

text \<open>The world without the call counter and the diagnostics.\<close>

lemma called_simps [simp]:
  "w_posts (called w) = w_posts w" "w_stdout (called w) = w_stdout w" "w_file (called w) = w_file w"
  "w_sleeps (called w) = w_sleeps w" "w_calls (called w) = Suc (w_calls w)"
  "w_posts (eprint s w) = w_posts w" "w_stdout (eprint s w) = w_stdout w" "w_file (eprint s w) = w_file w"
  "w_sleeps (eprint s w) = w_sleeps w" "w_calls (eprint s w) = w_calls w"
  by (simp_all add: called_def eprint_def)

lemma backoff_sleep_simps [simp]:
  "w_posts (backoff_sleep g a w) = w_posts w" "w_stdout (backoff_sleep g a w) = w_stdout w"
  "w_file (backoff_sleep g a w) = w_file w" "w_calls (backoff_sleep g a w) = w_calls w"
  "w_sleeps (backoff_sleep g a w) = w_sleeps w @
     (if int a < g_retry_max_attempts g then [backoff (g_retry_backoff_seconds g) a] else [])"
  by (simp_all add: backoff_sleep_def)

section \<open>Posting a batch\<close>

text \<open>An attempt settles the batch when it is accepted, or refused for good.\<close>

definition settled :: "curl_result \<Rightarrow> bool" where
  "settled r \<longleftrightarrow>
     (case r of
        CurlFail \<Rightarrow> False
      | CurlDone code _ \<Rightarrow> 200 \<le> code \<and> code < 300 \<or> 400 \<le> code \<and> code < 500 \<and> code \<noteq> 429)"

text \<open>The loop from some attempt on: \<open>n\<close> attempts are left, and the next ones get the answers
  \<open>ans 0\<close>, \<open>ans 1\<close>, and so on.\<close>

definition attempts_outcome ::
  "(nat \<Rightarrow> curl_result) \<Rightarrow> nat \<Rightarrow> rc \<Rightarrow> nat \<Rightarrow> bool" where
  "attempts_outcome ans n rc made \<longleftrightarrow>
     (rc = 0 \<and> 0 < made \<and> made \<le> n \<and> settled (ans (made - 1)) \<and> (\<forall>j < made - 1. \<not> settled (ans j))) \<or>
     (rc = -1 \<and> made = n \<and> (\<forall>j < n. \<not> settled (ans j)))"

lemma attempts_outcome_step:
  assumes "attempts_outcome (\<lambda>k. ans (Suc k)) n rc made" "\<not> settled (ans 0)"
  shows "attempts_outcome ans (Suc n) rc (Suc made)"
  using assms
  by (auto simp: attempts_outcome_def less_Suc_eq_0_disj gr0_conv_Suc)

lemma post_attempts_spec:
  assumes "n = nat (g_retry_max_attempts g + 1 - int attempt)"
  shows "\<exists>rc w' made. post_attempts env body attempt g w = (rc, free_batch_items g, w') \<and>
    attempts_outcome (\<lambda>k. env_perform env (w_calls w + k) (http_request g body)) n rc made \<and>
    w_posts w' = w_posts w @ replicate made (http_request g body) \<and>
    w_sleeps w' = w_sleeps w @ map (\<lambda>k. backoff (g_retry_backoff_seconds g) (attempt + k))
      [0..<(if rc = 0 then made - 1 else n - 1)] \<and>
    w_stdout w' = w_stdout w \<and> w_file w' = w_file w"
  using assms
proof (induction n arbitrary: attempt w)
  case 0
  then show ?case
    by (subst post_attempts.simps) (auto simp: attempts_outcome_def)
next
  case (Suc n)
  let ?req = "http_request g body"
  let ?w1 = "called (w\<lparr>w_posts := w_posts w @ [?req]\<rparr>)"
  let ?r = "env_perform env (w_calls w) ?req"
  have le: "\<not> int attempt > g_retry_max_attempts g" using Suc.prems by auto
  show ?case
  proof (cases "settled ?r")
    case True
    then obtain code chunks where r: "?r = CurlDone code chunks" by (cases ?r) (auto simp: settled_def)
    have "attempts_outcome (\<lambda>k. env_perform env (w_calls w + k) ?req) (Suc n) 0 1"
      using True by (simp add: attempts_outcome_def)
    moreover obtain w' where w': "post_attempts env body attempt g w = (0, free_batch_items g, w')"
      "w_posts w' = w_posts ?w1 \<and> w_sleeps w' = w_sleeps ?w1 \<and> w_stdout w' = w_stdout ?w1 \<and>
      w_file w' = w_file ?w1"
      using True r le by (subst (asm) post_attempts.simps) (auto simp: settled_def Let_def)
    ultimately show ?thesis by (intro exI [of _ 0] exI [of _ w'] exI [of _ 1]) simp
  next
    case False
    let ?w2 = "backoff_sleep g attempt ?w1"
    have eq: "post_attempts env body attempt g w = post_attempts env body (Suc attempt) g ?w2"
      using False le by (subst post_attempts.simps)
        (auto simp: settled_def Let_def split: curl_result.splits)
    have "n = nat (g_retry_max_attempts g + 1 - int (Suc attempt))" using Suc.prems by auto
    from Suc.IH [OF this, of ?w2] obtain rc w' made where ih:
      "post_attempts env body (Suc attempt) g ?w2 = (rc, free_batch_items g, w')"
      "attempts_outcome (\<lambda>k. env_perform env (w_calls ?w2 + k) ?req) n rc made"
      "w_posts w' = w_posts ?w2 @ replicate made ?req"
      "w_sleeps w' = w_sleeps ?w2 @ map (\<lambda>k. backoff (g_retry_backoff_seconds g) (Suc attempt + k))
         [0..<(if rc = 0 then made - 1 else n - 1)]"
      "w_stdout w' = w_stdout ?w2 \<and> w_file w' = w_file ?w2" by blast
    have "attempts_outcome (\<lambda>k. env_perform env (w_calls w + k) ?req) (Suc n) rc (Suc made)"
      using ih(2) False by (intro attempts_outcome_step) simp_all
    moreover have "w_sleeps w' = w_sleeps w @ map (\<lambda>k. backoff (g_retry_backoff_seconds g) (attempt + k))
      [0..<(if rc = 0 then Suc made - 1 else Suc n - 1)]"
    proof (cases n)
      case 0
      with ih(2) have "rc \<noteq> 0" by (auto simp: attempts_outcome_def)
      with ih(4) 0 Suc.prems show ?thesis by auto
    next
      case (Suc m)
      let ?f = "\<lambda>k. backoff (g_retry_backoff_seconds g) (attempt + k)"
      have "int attempt < g_retry_max_attempts g" using Suc Suc.prems by auto
      then have "w_sleeps w' = w_sleeps w @ ?f 0 # map (\<lambda>k. ?f (Suc k)) [0..<(if rc = 0 then made - 1 else n - 1)]"
        using ih(4) by simp
      also have "\<dots> = w_sleeps w @ map ?f [0..<Suc (if rc = 0 then made - 1 else n - 1)]"
        by (simp only: map_upt_Suc)
      finally show ?thesis using ih(2) Suc by (auto simp: attempts_outcome_def simp del: upt_Suc)
    qed
    ultimately show ?thesis
      using ih eq by (intro exI [of _ rc] exI [of _ w'] exI [of _ "Suc made"]) auto
  qed
qed

text \<open>What a call of \<open>http_post_batch\<close> did: it kept the batch for want of memory or of a
  handle, or it made some attempts and emptied the batch.\<close>

definition post_outcome ::
  "output_env \<Rightarrow> output_state \<Rightarrow> output_world \<Rightarrow> rc \<Rightarrow> output_state \<Rightarrow> output_world \<Rightarrow> nat \<Rightarrow> bool" where
  "post_outcome env g w rc g' w' made \<longleftrightarrow>
     (let req = http_request g (http_body (batch_list g));
          n = nat (g_retry_max_attempts g + 1);
          kept = (\<not> env_alloc env (w_calls w) \<or> \<not> env_curl_init env (Suc (w_calls w)))
      in (if kept then rc = -1 \<and> made = 0 \<and> g' = g
          else g' = free_batch_items g \<and>
            attempts_outcome (\<lambda>k. env_perform env (w_calls w + 2 + k) req) n rc made) \<and>
         w_posts w' = w_posts w @ replicate made req \<and>
         w_sleeps w' = w_sleeps w @
           map (backoff (g_retry_backoff_seconds g)) [0..<(if kept then 0 else if rc = 0 then made - 1 else n - 1)] \<and>
         w_stdout w' = w_stdout w \<and> w_file w' = w_file w)"

lemma http_post_batch_outcome:
  assumes "g_batch_count g \<noteq> 0"
  shows "\<exists>rc g' w' made. http_post_batch env g w = (rc, g', w') \<and> post_outcome env g w rc g' w' made"
proof (cases "\<not> env_alloc env (w_calls w) \<or> \<not> env_curl_init env (Suc (w_calls w))")
  case True
  with assms show ?thesis by (auto simp: http_post_batch_def post_outcome_def Let_def)
next
  case False
  let ?body = "http_body (batch_list g)"
  let ?n = "nat (g_retry_max_attempts g + 1 - int 0)"
  obtain rc w' made where "post_attempts env ?body 0 g (called (called w)) = (rc, free_batch_items g, w')"
    "attempts_outcome (\<lambda>k. env_perform env (w_calls (called (called w)) + k) (http_request g ?body)) ?n rc made"
    "w_posts w' = w_posts (called (called w)) @ replicate made (http_request g ?body)"
    "w_sleeps w' = w_sleeps (called (called w)) @ map (\<lambda>k. backoff (g_retry_backoff_seconds g) (0 + k))
       [0..<(if rc = 0 then made - 1 else ?n - 1)]"
    "w_stdout w' = w_stdout (called (called w)) \<and> w_file w' = w_file (called (called w))"
    using post_attempts_spec [OF refl] by blast
  with assms False show ?thesis
    by (intro exI [of _ rc] exI [of _ "free_batch_items g"] exI [of _ w'] exI [of _ made])
      (simp add: http_post_batch_def post_outcome_def Let_def)
qed

lemma http_post_batch_empty: "g_batch_count g = 0 \<Longrightarrow> http_post_batch env g w = (0, g, w)"
  by (simp add: http_post_batch_def)

text \<open>Posting keeps the batch or empties it, and nothing else of the state changes.\<close>

lemma http_post_batch_state:
  assumes "http_post_batch env g w = (rc, g', w')"
  shows "g' = g \<or> g' = free_batch_items g"
proof (cases "g_batch_count g = 0")
  case True
  with assms show ?thesis by (simp add: http_post_batch_empty)
next
  case False
  with http_post_batch_outcome [of g env w] assms show ?thesis
    by (auto simp: post_outcome_def Let_def split: if_splits)
qed

lemma http_post_batch_ok:
  assumes "http_post_batch env g w = (0, g', w')" "g_batch_count g \<noteq> 0"
  shows "g' = free_batch_items g"
  using http_post_batch_outcome [of g env w] assms
  by (auto simp: post_outcome_def Let_def split: if_splits)

lemma http_post_batch_inv:
  assumes "http_post_batch env g w = (rc, g', w')" "batch_ready g"
  shows "batch_ready g' \<and> output_static g' = output_static g \<and>
    (batch_list g' = batch_list g \<or> batch_list g' = [])"
  using http_post_batch_state [OF assms(1)] assms(2) by auto

section \<open>The body\<close>

lemma body_loop_join: "body_loop body items = body @ join_items items"
  by (induction items arbitrary: body) (simp_all add: join_Cons)

lemma body_len_sum: "fold (\<lambda>s n. n + (length s + 1)) items m = m + sum_list (map (\<lambda>s. length s + 1) items)"
  by (induction items arbitrary: m) simp_all

text \<open>The body of a request is the JSON array text of the batch, and the loop of strcat calls
  that builds it stays within the allocation of body_len + 1 bytes, terminator included, with one
  byte to spare.\<close>

theorem http_body_fits:
  assumes "items \<noteq> []"
  shows "http_body items = ''['' @ join_items items @ '']'' \<and> length (http_body items) + 1 = body_len items"
proof -
  have "length (join_items items) + 1 = sum_list (map (\<lambda>s. length s + 1) items)"
    using length_join [OF assms] .
  then show ?thesis unfolding http_body_def body_len_def body_loop_join body_len_sum by simp
qed

theorem http_body_fits_witness:
  "http_body [''{}'', ''{1}'', ''x''] = ''['' @ join_items [''{}'', ''{1}'', ''x''] @ '']'' \<and>
     length (http_body [''{}'', ''{1}'', ''x'']) + 1 = body_len [''{}'', ''{1}'', ''x'']"
  by (rule http_body_fits) simp

section \<open>The response buffer\<close>

definition response_inv :: "response_buf \<Rightarrow> bool" where
  "response_inv b \<longleftrightarrow> length (resp_data b) = 2048 \<and> resp_len b < 2048 \<and> resp_data b ! resp_len b = NUL"

lemma write_response_step:
  assumes "response_inv b"
  shows "response_inv (snd (write_response_cb c b)) \<and>
    take (resp_len (snd (write_response_cb c b))) (resp_data (snd (write_response_cb c b))) =
      take 2047 (take (resp_len b) (resp_data b) @ c) \<and>
    resp_len (snd (write_response_cb c b)) = min 2047 (resp_len b + length c)"
proof -
  let ?n = "min (length c) (2047 - resp_len b)"
  have n: "(if length c > 2048 - resp_len b - 1 then 2048 - resp_len b - 1 else length c) = ?n"
    using assms by (auto simp: response_inv_def)
  have eq: "snd (write_response_cb c b) =
      b\<lparr>resp_data := (take (resp_len b) (resp_data b) @ take ?n c @ drop (resp_len b + ?n) (resp_data b))
          [resp_len b + ?n := NUL],
        resp_len := resp_len b + ?n\<rparr>"
    unfolding write_response_cb_def Let_def n by simp
  show ?thesis
    unfolding eq using assms
    by (cases "resp_len b = 2047") (auto simp: response_inv_def min_def)
qed

lemma take_take_append: "take n (take n xs @ ys) = take n (xs @ ys)"
  by (simp add: min_def)

lemma response_text_fold:
  assumes "response_inv b"
  shows "response_inv (fold (\<lambda>c b. snd (write_response_cb c b)) chunks b) \<and>
    take (resp_len (fold (\<lambda>c b. snd (write_response_cb c b)) chunks b))
      (resp_data (fold (\<lambda>c b. snd (write_response_cb c b)) chunks b)) =
    take 2047 (take (resp_len b) (resp_data b) @ concat chunks)"
  using assms
proof (induction chunks arbitrary: b)
  case Nil
  then show ?case by (simp add: response_inv_def)
next
  case (Cons c chunks)
  let ?b = "snd (write_response_cb c b)"
  from write_response_step [OF Cons.prems, of c] have s: "response_inv ?b"
    "take (resp_len ?b) (resp_data ?b) = take 2047 (take (resp_len b) (resp_data b) @ c)" by blast+
  from Cons.IH [OF s(1)] show ?case
    unfolding s(2) take_take_append by simp
qed

lemma cstr_take_nul:
  assumes "i < length d" "d ! i = NUL"
  shows "cstr d = cstr (take i d)"
proof -
  have d: "d = take i d @ NUL # drop (Suc i) d"
    using assms by (metis id_take_nth_drop)
  show ?thesis
  proof (cases "no_nul (take i d)")
    case True
    with d show ?thesis by (metis cstr_id cstr_terminated)
  next
    case False
    then obtain c where "c \<in> set (take i d)" "\<not> c \<noteq> NUL" by (auto simp: no_nul_def)
    then show ?thesis unfolding cstr_def by (subst d) (simp add: takeWhile_append1)
  qed
qed

text \<open>Whatever chunks the server sends, the callback stays inside the 2048-byte buffer and the
  diagnostic text is the first 2047 bytes of the whole response, up to a NUL byte.\<close>

theorem response_text_prefix: "response_text chunks = cstr (take 2047 (concat chunks))"
proof -
  let ?b = "fold (\<lambda>c b. snd (write_response_cb c b)) chunks fresh_response"
  have "response_inv fresh_response" by (simp add: response_inv_def fresh_response_def)
  from response_text_fold [OF this, of chunks] have "response_inv ?b"
    "take (resp_len ?b) (resp_data ?b) = take 2047 (concat chunks)"
    by (auto simp: fresh_response_def)
  then show ?thesis
    unfolding response_text_def using cstr_take_nul [of "resp_len ?b" "resp_data ?b"]
    by (simp add: response_inv_def)
qed

section \<open>Backoff\<close>

lemma unat_backoff:
  assumes "0 < secs" "secs < 2 ^ 32" "attempt < 32"
  shows "backoff secs attempt = Some (of_nat (min 60 (nat secs * 2 ^ attempt mod 2 ^ 32)))"
proof -
  let ?b = "word_of_int secs :: u32"
  have b: "?b = of_nat (nat secs)" using assms(1) by simp
  have "unat ?b = nat secs" unfolding b unat_of_nat using assms(1,2) by (simp add: nat_less_iff)
  then have "?b \<noteq> 0" using assms(1) by auto
  moreover have "push_bit attempt ?b = of_nat (nat secs * 2 ^ attempt)"
    unfolding b by (simp only: push_bit_eq_mult of_nat_mult of_nat_power of_nat_numeral)
  then have "unat (push_bit attempt ?b) = nat secs * 2 ^ attempt mod 2 ^ 32"
    by (simp only: unat_of_nat) simp
  moreover have "of_nat (unat (push_bit attempt ?b)) = push_bit attempt ?b" by simp
  ultimately show ?thesis
    using assms(3) by (simp add: backoff_def Let_def word_less_nat_alt min_def)
qed

text \<open>The pause before the next attempt doubles with each attempt and is capped at 60
  seconds, as long as the shifted value fits 32 bits.\<close>

theorem backoff_doubles:
  assumes "0 < secs" "attempt < 32" "nat secs * 2 ^ attempt < 2 ^ 32"
  shows "backoff secs attempt = Some (of_nat (min 60 (nat secs * 2 ^ attempt)))"
proof -
  have "nat secs * 1 \<le> nat secs * 2 ^ attempt" by (intro mult_le_mono) simp_all
  then have "nat secs < 2 ^ 32" using assms(3) by (simp only: mult_1_right)
  then have "secs < 2 ^ 32" using assms(1) by (simp add: nat_less_iff)
  from unat_backoff [OF assms(1) this assms(2)] show ?thesis using assms(3) by simp
qed

theorem backoff_doubles_witness: "backoff 2 4 = Some (of_nat (min 60 (nat 2 * 2 ^ 4)))"
  by (rule backoff_doubles) simp_all

text \<open>The doubling wraps around: a retry does not wait at all exactly when the 32-bit shift has
  dropped every bit of the configured backoff, and from the 32nd retry on (up to 100 can be
  configured) the shift is undefined. With the documented maximum of 3600 seconds the 28th retry
  is the first that does not wait.\<close>

theorem backoff_vanishes:
  assumes "0 < secs" "secs < 2 ^ 32"
  shows "(backoff secs attempt = Some 0 \<longleftrightarrow> attempt < 32 \<and> 2 ^ 32 dvd nat secs * 2 ^ attempt) \<and>
    (backoff secs attempt = None \<longleftrightarrow> 32 \<le> attempt)"
proof (cases "attempt < 32")
  case True
  let ?r = "nat secs * 2 ^ attempt mod 2 ^ 32"
  have "(of_nat (min 60 ?r) :: u32) = 0 \<longleftrightarrow> min 60 ?r = 0"
    unfolding word_of_nat_eq_0_iff by (rule iffI, rule ccontr) (auto dest: dvd_imp_le)
  also have "\<dots> \<longleftrightarrow> 2 ^ 32 dvd nat secs * 2 ^ attempt"
    unfolding dvd_eq_mod_eq_0 by (cases "?r = 0") (simp_all only: min_def, simp_all)
  finally show ?thesis
    unfolding unat_backoff [OF assms True] option.inject using True by simp
qed (simp add: backoff_def)

theorem backoff_vanishes_witness:
  "(backoff 3600 28 = Some 0 \<longleftrightarrow> 28 < (32 :: nat) \<and> 2 ^ 32 dvd nat 3600 * 2 ^ 28) \<and>
    (backoff 3600 28 = None \<longleftrightarrow> 32 \<le> (28 :: nat))"
  by (rule backoff_vanishes) simp_all

section \<open>Capacity\<close>

lemma grow_capacity_spec:
  "0 < c \<Longrightarrow> needed \<le> grow_capacity c needed \<and> c \<le> grow_capacity c needed \<and>
     grow_capacity c needed \<le> max c (2 * needed)"
proof (induction c needed rule: grow_capacity.induct)
  case (1 c needed)
  show ?case
  proof (cases "c < needed")
    case True
    with 1 have "needed \<le> grow_capacity (c * 2) needed \<and> c * 2 \<le> grow_capacity (c * 2) needed \<and>
      grow_capacity (c * 2) needed \<le> max (c * 2) (2 * needed)" by simp
    moreover have "grow_capacity c needed = grow_capacity (c * 2) needed"
      using True "1.prems" by (subst grow_capacity.simps) simp
    ultimately show ?thesis using True by auto
  next
    case False
    then have "grow_capacity c needed = c" by (subst grow_capacity.simps) simp
    with False show ?thesis by auto
  qed
qed

lemma batch_ensure_capacity_ready:
  assumes "batch_ensure_capacity env needed g w = (rc, g', w')" "batch_ready g"
  shows "batch_ready g' \<and> output_static g' = output_static g \<and> batch_list g' = batch_list g \<and>
    g_batch_started g' = g_batch_started g \<and>
    (rc = 0 \<longrightarrow> needed \<le> g_batch_capacity g') \<and> (rc = 0 \<or> rc = -1) \<and> w_posts w' = w_posts w"
proof -
  let ?c = "g_batch_capacity g" and ?n = "grow_capacity (g_batch_capacity g) needed"
  have r: "g_batch_items g = Some (map Some (batch_list g) @ replicate (?c - length (batch_list g)) None)"
    "g_batch_count g = length (batch_list g)" "length (batch_list g) \<le> ?c" "16 \<le> ?c"
    using assms(2) by (auto simp: batch_ready_iff)
  then have n: "needed \<le> ?n" "?c \<le> ?n" using grow_capacity_spec [of ?c needed] by auto
  let ?g = "g\<lparr>g_batch_items := Some (map Some (batch_list g) @ replicate (?n - length (batch_list g)) None),
    g_batch_capacity := ?n\<rparr>"
  have "batch_list ?g = batch_list g" using r(2) by (simp add: batch_list_def comp_def)
  moreover have "batch_ready ?g"
    unfolding batch_ready_iff calculation using r n by simp
  moreover have "output_static ?g = output_static g" by (simp add: output_static_def)
  moreover have "replicate (?c - length (batch_list g)) None @ replicate (?n - ?c) None =
      (replicate (?n - length (batch_list g)) None :: cstring option list)"
    using r n by (simp flip: replicate_add)
  ultimately show ?thesis
    using assms r(1,4) n by (auto simp: batch_ensure_capacity_def Let_def split: if_splits)
qed

section \<open>Emitting\<close>

text \<open>The invariant of the HTTP mode.\<close>

definition batch_ok :: "output_state \<Rightarrow> bool" where
  "batch_ok g \<longleftrightarrow>
     batch_ready g \<and> g_mode g = OUTPUT_HTTP_POST \<and> 1 \<le> g_batch_size g \<and>
     0 \<le> g_retry_max_attempts g \<and> int (length (batch_list g)) \<le> g_batch_size g"

text \<open>A log of attempted batches: what was posted, how often, and the requests this makes.\<close>

type_synonym post_log = "(cstring list \<times> nat) list"

definition log_events :: "post_log \<Rightarrow> cstring list" where
  "log_events bs = concat (map fst bs)"

definition log_requests :: "output_state \<Rightarrow> post_log \<Rightarrow> http_request list" where
  "log_requests g bs = concat (map (\<lambda>(b, n). replicate n (http_request g (http_body b))) bs)"

definition log_ok :: "output_state \<Rightarrow> post_log \<Rightarrow> bool" where
  "log_ok g bs \<longleftrightarrow>
     list_all (\<lambda>(b, n). b \<noteq> [] \<and> int (length b) \<le> g_batch_size g \<and> 1 \<le> n \<and>
       int n \<le> g_retry_max_attempts g + 1) bs"

lemmas log_defs = log_events_def log_requests_def log_ok_def

lemma log_simps [simp]:
  "log_events [] = []" "log_requests g [] = []" "log_ok g []"
  "log_events (bs @ cs) = log_events bs @ log_events cs"
  "log_requests g (bs @ cs) = log_requests g bs @ log_requests g cs"
  "log_ok g (bs @ cs) \<longleftrightarrow> log_ok g bs \<and> log_ok g cs"
  by (simp_all add: log_defs)

lemma log_static:
  "output_static g' = output_static g \<Longrightarrow> log_requests g' = log_requests g \<and> log_ok g' = log_ok g"
  by (drule output_static_eq) (simp add: log_defs fun_eq_iff)

text \<open>An environment in which nothing fails and the server accepts every request.\<close>

definition healthy :: "output_env \<Rightarrow> bool" where
  "healthy env \<longleftrightarrow>
     (\<forall>n. env_alloc env n) \<and> (\<forall>n. env_curl_init env n) \<and>
     (\<forall>n req. \<exists>code chunks. env_perform env n req = CurlDone code chunks \<and> 200 \<le> code \<and> code < 300)"

text \<open>One step of the HTTP mode: the batch invariant is kept, and the events attempted and pending
  afterwards are those pending before and the accepted ones, in order.\<close>

definition http_step ::
  "output_env \<Rightarrow> cstring list \<Rightarrow> output_state \<Rightarrow> output_world \<Rightarrow> rc \<Rightarrow> output_state \<Rightarrow> output_world \<Rightarrow> post_log \<Rightarrow> bool" where
  "http_step env es g w rc g' w' bs \<longleftrightarrow>
     batch_ok g' \<and> output_static g' = output_static g \<and> log_ok g bs \<and>
     w_posts w' = w_posts w @ log_requests g bs \<and>
     log_events bs @ batch_list g' = batch_list g @ es \<and>
     (healthy env \<longrightarrow> rc = 0 \<and> list_all (\<lambda>(b, n). n = 1) bs)"

lemma http_step_refl: "batch_ok g \<Longrightarrow> w_posts w' = w_posts w \<Longrightarrow> http_step env [] g w 0 g w' []"
  by (simp add: http_step_def)

lemma healthy_made:
  assumes "healthy env" "attempts_outcome (\<lambda>k. env_perform env (f k) req) n rc made" "0 < n"
  shows "rc = 0 \<and> made = 1"
proof -
  have ok: "settled (env_perform env m req)" for m
  proof -
    obtain code chunks where "env_perform env m req = CurlDone code chunks" "200 \<le> code" "code < 300"
      using assms(1) unfolding healthy_def by blast
    then show ?thesis by (simp add: settled_def)
  qed
  then have "rc = 0" "0 < made" "\<not> 0 < made - 1"
    using assms(2,3) unfolding attempts_outcome_def by blast+
  then show ?thesis by simp
qed

lemma http_post_batch_step:
  assumes "http_post_batch env g w = (rc, g', w')" "batch_ok g"
  shows "\<exists>bs. http_step env [] g w rc g' w' bs \<and> (rc = 0 \<longrightarrow> batch_list g' = [])"
proof (cases "g_batch_count g = 0")
  case True
  then have "batch_list g = []" using assms(2) by (simp add: batch_ok_def batch_list_Nil)
  then show ?thesis
    using True assms by (intro exI [of _ "[]"]) (auto simp: http_post_batch_empty intro: http_step_refl)
next
  case False
  let ?kept = "\<not> env_alloc env (w_calls w) \<or> \<not> env_curl_init env (Suc (w_calls w))"
  obtain made where o: "post_outcome env g w rc g' w' made"
    using http_post_batch_outcome [OF False, of env w] assms(1) by auto
  show ?thesis
  proof (cases ?kept)
    case True
    then have "\<not> healthy env" by (auto simp: healthy_def)
    with True o assms(2) show ?thesis
      by (intro exI [of _ "[]"]) (auto simp: post_outcome_def http_step_def Let_def)
  next
    case False
    let ?n = "nat (g_retry_max_attempts g + 1)"
    have b: "batch_list g \<noteq> []" "int (length (batch_list g)) \<le> g_batch_size g" "0 < ?n"
      using \<open>g_batch_count g \<noteq> 0\<close> assms(2) batch_list_Nil [of g] by (auto simp: batch_ok_def)
    have g': "g' = free_batch_items g"
      and out: "attempts_outcome (\<lambda>k. env_perform env (w_calls w + 2 + k) (http_request g (http_body (batch_list g)))) ?n rc made"
      and posts: "w_posts w' = w_posts w @ replicate made (http_request g (http_body (batch_list g)))"
      using o False by (auto simp: post_outcome_def Let_def)
    have "1 \<le> made" "int made \<le> g_retry_max_attempts g + 1"
      using out b(3) by (auto simp: attempts_outcome_def)
    moreover have "healthy env \<Longrightarrow> rc = 0 \<and> made = 1" using healthy_made [OF _ out b(3)] by simp
    moreover have "batch_ok g'" "output_static g' = output_static g" "batch_list g' = []"
      using assms(2) output_static_eq [of g' g] by (auto simp: g' batch_ok_def)
    ultimately show ?thesis
      using b posts by (intro exI [of _ "[(batch_list g, made)]"]) (simp add: http_step_def log_defs)
  qed
qed

lemma http_step_trans:
  assumes "http_step env es g w rc1 g1 w1 bs1" "http_step env es' g1 w1 rc2 g2 w2 bs2"
  shows "http_step env (es @ es') g w rc2 g2 w2 (bs1 @ bs2)"
proof -
  have "log_requests g1 = log_requests g" "log_ok g1 = log_ok g"
    using assms(1) log_static [of g1 g] by (simp_all add: http_step_def)
  moreover have "log_events (bs1 @ bs2) @ batch_list g2 = batch_list g @ es @ es'"
    using assms unfolding http_step_def log_simps by (metis append.assoc)
  ultimately show ?thesis using assms by (auto simp: http_step_def)
qed

lemma http_step_called: "http_step env es g (called w) rc g' w' bs \<longleftrightarrow> http_step env es g w rc g' w' bs"
  by (simp add: http_step_def)

lemma maybe_flush_step:
  assumes "maybe_flush_http_batch env g w = (rc, g', w')" "batch_ok g"
  shows "\<exists>bs. http_step env [] g w rc g' w' bs \<and>
    (rc = 0 \<longrightarrow> int (length (batch_list g')) < g_batch_size g)"
proof -
  have post: "\<exists>bs. http_step env [] g w rc g' w' bs \<and> (rc = 0 \<longrightarrow> int (length (batch_list g')) < g_batch_size g)"
    if "http_post_batch env g w1 = (rc, g', w')" "w1 = w \<or> w1 = called w" for w1
    using http_post_batch_step [OF that(1) assms(2)] that(2) assms(2)
    by (auto simp: http_step_called batch_ok_def)
  have keep: "\<exists>bs. http_step env [] g w 0 g w1 bs" if "w1 = w \<or> w1 = called w" for w1
    using http_step_refl [OF assms(2), of w1 w env] that by auto
  have "g_batch_count g = length (batch_list g)"
    using assms(2) by (simp add: batch_ok_def batch_count_list)
  moreover have "snd (batch_age_seconds env g w) = w \<or> snd (batch_age_seconds env g w) = called w"
    by (simp add: batch_age_seconds_def split: option.split)
  ultimately show ?thesis
    using assms post keep
    by (auto simp: maybe_flush_http_batch_def batch_ok_def not_le split: if_splits prod.splits)
qed

lemma batch_start_step:
  assumes "batch_start_if_needed env g w = (g', w')" "batch_ok g"
  shows "http_step env [] g w 0 g' w' [] \<and> batch_list g' = batch_list g"
proof -
  have "g' = g \<or> (\<exists>t. g' = g\<lparr>g_batch_started_at := t, g_batch_started := True\<rparr>)"
    and w: "w_posts w' = w_posts w"
    using assms(1) by (auto simp: batch_start_if_needed_def split: if_splits option.splits)
  then have "batch_list g' = batch_list g" "batch_ready g' = batch_ready g" "output_static g' = output_static g"
    by (auto simp: batch_list_def batch_ready_def output_static_def split: option.split)
  with assms(2) w show ?thesis
    using output_static_eq [of g' g] by (simp add: http_step_def batch_ok_def)
qed

lemma batch_list_slots:
  "g_batch_items g = Some (map Some xs @ ys) \<Longrightarrow> g_batch_count g = length xs \<Longrightarrow> batch_list g = xs"
  by (simp add: batch_list_def comp_def)

text \<open>Storing an item in the first free slot.\<close>

lemma store_item_step:
  assumes "batch_ok g" "g_batch_count g + 1 \<le> g_batch_capacity g"
    "int (length (batch_list g)) < g_batch_size g" "w_posts w' = w_posts w"
    "g' = g\<lparr>g_batch_items := map_option (\<lambda>items. items[g_batch_count g := Some e]) (g_batch_items g),
            g_batch_count := g_batch_count g + 1\<rparr>"
  shows "http_step env [e] g w 0 g' w' [] \<and> batch_list g' = batch_list g @ [e]"
proof -
  let ?b = "batch_list g" and ?c = "g_batch_capacity g"
  have r: "g_batch_items g = Some (map Some ?b @ replicate (?c - length ?b) None)" "g_batch_count g = length ?b"
    "length ?b < ?c" "16 \<le> ?c"
    using assms(1,2) by (auto simp: batch_ok_def batch_ready_iff)
  have "replicate (?c - length ?b) None = None # replicate (?c - Suc (length ?b)) (None :: cstring option)"
    using r(3) by (metis Suc_diff_Suc replicate_Suc)
  then have items: "g_batch_items g' = Some (map Some (?b @ [e]) @ replicate (?c - Suc (length ?b)) None)"
    using r assms(5) by (simp add: list_update_append)
  have l: "batch_list g' = ?b @ [e]"
    using assms(5) r(2) by (intro batch_list_slots [OF items]) simp
  have "batch_ready g'" unfolding batch_ready_iff l using items assms(5) r by simp
  moreover have "output_static g' = output_static g" using assms(5) by (simp add: output_static_def)
  ultimately show ?thesis
    using assms(1,3,4) output_static_eq [of g' g] l by (simp add: http_step_def batch_ok_def)
qed

lemma ensure_capacity_step:
  assumes "batch_ensure_capacity env needed g w = (rc, g', w')" "batch_ok g"
  shows "http_step env [] g w rc g' w' [] \<and> batch_list g' = batch_list g \<and>
    (rc = 0 \<longrightarrow> needed \<le> g_batch_capacity g')"
proof -
  have r: "batch_ready g' \<and> output_static g' = output_static g \<and> batch_list g' = batch_list g \<and>
    g_batch_started g' = g_batch_started g \<and>
    (rc = 0 \<longrightarrow> needed \<le> g_batch_capacity g') \<and> (rc = 0 \<or> rc = -1) \<and> w_posts w' = w_posts w"
    using batch_ensure_capacity_ready [OF assms(1)] assms(2) by (simp add: batch_ok_def)
  moreover have "healthy env \<Longrightarrow> rc = 0"
    using assms(1) by (auto simp: batch_ensure_capacity_def healthy_def Let_def split: if_splits)
  ultimately show ?thesis
    using assms(2) output_static_eq [of g' g] by (auto simp: http_step_def batch_ok_def)
qed

text \<open>Emitting one event: it is stored whenever the call returns 0.\<close>

lemma emit_http_step:
  assumes "emit_http env e g w = (rc, g', w')" "batch_ok g"
  shows "\<exists>es bs. http_step env es g w rc g' w' bs \<and> (es = [e] \<or> es = [] \<and> rc = -1)"
proof -
  obtain rc1 g1 w1 where s1: "maybe_flush_http_batch env g w = (rc1, g1, w1)" by (metis prod.exhaust)
  from maybe_flush_step [OF s1 assms(2)] obtain bs1 where
    h1: "http_step env [] g w rc1 g1 w1 bs1" "rc1 = 0 \<longrightarrow> int (length (batch_list g1)) < g_batch_size g" by blast
  obtain g2 w2 where s2: "batch_start_if_needed env g1 w1 = (g2, w2)" by (metis prod.exhaust)
  obtain rc3 g3 w3 where s3: "batch_ensure_capacity env (g_batch_count g2 + 1) g2 w2 = (rc3, g3, w3)"
    by (metis prod.exhaust)
  have ok1: "batch_ok g1" using h1(1) by (simp add: http_step_def)
  from batch_start_step [OF s2 ok1] have h2: "http_step env [] g1 w1 0 g2 w2 []"
    "batch_list g2 = batch_list g1" by simp_all
  then have ok2: "batch_ok g2" by (simp add: http_step_def)
  from ensure_capacity_step [OF s3 ok2] have h3: "http_step env [] g2 w2 rc3 g3 w3 []"
    "batch_list g3 = batch_list g2" "rc3 = 0 \<longrightarrow> g_batch_count g2 + 1 \<le> g_batch_capacity g3" by simp_all
  then have ok3: "batch_ok g3" by (simp add: http_step_def)
  have h13: "http_step env [] g w rc3 g3 w3 bs1"
    using http_step_trans [OF http_step_trans [OF h1(1) h2(1)] h3(1)] by simp
  have lost: "\<exists>es bs. http_step env es g w (-1) g'' w'' bs \<and> (es = [e] \<or> es = [] \<and> (-1 :: int) = -1)"
    if "http_step env [] g w r g'' w'' bs" "\<not> healthy env" for r g'' w'' bs
    using that by (intro exI [of _ "[]"] exI [of _ bs]) (simp add: http_step_def)
  let ?g4 = "g3\<lparr>g_batch_items := map_option (\<lambda>items. items[g_batch_count g3 := Some e]) (g_batch_items g3),
    g_batch_count := g_batch_count g3 + 1\<rparr>"
  consider "rc1 \<noteq> 0" | "rc1 = 0" "rc3 \<noteq> 0" | "rc1 = 0" "rc3 = 0" "\<not> env_alloc env (w_calls w3)"
    | "rc1 = 0" "rc3 = 0" "env_alloc env (w_calls w3)" by blast
  then show ?thesis
  proof cases
    case 1
    then have "\<not> healthy env" using h1(1) by (auto simp: http_step_def)
    with lost [OF h1(1)] 1 s1 assms(1) show ?thesis by (simp add: emit_http_def)
  next
    case 2
    then have "\<not> healthy env" using h3(1) by (auto simp: http_step_def)
    with lost [OF h13] 2 s1 s2 s3 assms(1) show ?thesis by (simp add: emit_http_def)
  next
    case 3
    then have "\<not> healthy env" by (auto simp: healthy_def)
    moreover have "http_step env [] g w rc3 g3 (called w3) bs1" using h13 by (simp add: http_step_def)
    ultimately show ?thesis using lost 3 s1 s2 s3 assms(1) by (simp add: emit_http_def)
  next
    case 4
    have cnt: "g_batch_count g3 = g_batch_count g2"
      using ok2 ok3 h3(2) by (simp add: batch_ok_def batch_count_list)
    have "g_batch_size g3 = g_batch_size g"
      using h13 output_static_eq [of g3 g] by (simp add: http_step_def)
    then have "int (length (batch_list g3)) < g_batch_size g3" using 4 h1(2) h2(2) h3(2) by simp
    with store_item_step [OF ok3, where w' = "called w3" and g' = ?g4 and e = e and w = w3 and env = env]
      h3(3) 4 cnt
    have h4: "http_step env [e] g3 w3 0 ?g4 (called w3) []" by simp
    then have h14: "http_step env [e] g w 0 ?g4 (called w3) bs1"
      using http_step_trans [OF h13 h4] by simp
    show ?thesis
    proof (cases "int (g_batch_count ?g4) \<ge> g_batch_size ?g4")
      case True
      then have post: "http_post_batch env ?g4 (called w3) = (rc, g', w')"
        using 4 s1 s2 s3 assms(1) by (simp add: emit_http_def)
      have "batch_ok ?g4" using h4 by (simp add: http_step_def)
      from http_post_batch_step [OF post this] obtain bs where "http_step env [] ?g4 (called w3) rc g' w' bs"
        by blast
      from http_step_trans [OF h14 this] show ?thesis by auto
    next
      case False
      then have "rc = 0" "g' = ?g4" "w' = called w3" using 4 s1 s2 s3 assms(1) by (auto simp: emit_http_def)
      with h14 show ?thesis by blast
    qed
  qed
qed

section \<open>Runs\<close>

text \<open>The delivery thread's use of the interface: one event after the other.\<close>

fun emit_all ::
  "output_env \<Rightarrow> cstring list \<Rightarrow> output_state \<Rightarrow> output_world \<Rightarrow> rc list \<times> output_state \<times> output_world" where
  "emit_all env [] g w = ([], g, w)"
| "emit_all env (e # es) g w =
     (let (rc, g, w) = output_emit_event env (Some e) g w; (rcs, g, w) = emit_all env es g w
      in (rc # rcs, g, w))"

definition accepted :: "cstring list \<Rightarrow> rc list \<Rightarrow> cstring list" where
  "accepted es rcs = map fst (filter (\<lambda>(e, rc). rc = 0) (zip es rcs))"

lemma accepted_Cons [simp]:
  "accepted (e # es) (rc # rcs) = (if rc = 0 then e # accepted es rcs else accepted es rcs)"
  by (simp add: accepted_def)

lemma emit_event_http:
  "batch_ok g \<Longrightarrow> output_emit_event env (Some e) g w = emit_http env e g w"
  by (simp add: output_emit_event_def batch_ok_def)

lemma emit_all_step:
  assumes "emit_all env es g w = (rcs, g', w')" "batch_ok g"
  shows "\<exists>es' bs. http_step env es' g w 0 g' w' bs \<and> subseq es' es \<and> subseq (accepted es rcs) es' \<and>
    (healthy env \<longrightarrow> es' = es \<and> rcs = replicate (length es) 0)"
  using assms
proof (induction es arbitrary: g w rcs)
  case Nil
  then show ?case
    by (intro exI [of _ "[]"]) (auto simp: accepted_def http_step_refl)
next
  case (Cons e es)
  obtain rc g1 w1 where s1: "emit_http env e g w = (rc, g1, w1)" by (metis prod.exhaust)
  obtain rcs2 g2 w2 where s2: "emit_all env es g1 w1 = (rcs2, g2, w2)" by (metis prod.exhaust)
  have eq: "rcs = rc # rcs2" "g' = g2" "w' = w2"
    using Cons.prems s1 s2 by (simp_all add: emit_event_http)
  from emit_http_step [OF s1 Cons.prems(2)] obtain es1 bs1 where
    h1: "http_step env es1 g w rc g1 w1 bs1" "es1 = [e] \<or> es1 = [] \<and> rc = -1" by blast
  then have ok: "batch_ok g1" "healthy env \<Longrightarrow> rc = 0" by (simp_all add: http_step_def)
  from Cons.IH [OF s2 [folded eq(2,3)] ok(1)] obtain es2 bs2 where
    h2: "http_step env es2 g1 w1 0 g' w' bs2" "subseq es2 es" "subseq (accepted es rcs2) es2"
    "healthy env \<longrightarrow> es2 = es \<and> rcs2 = replicate (length es) 0" by blast
  have "subseq (es1 @ es2) (e # es)" using h1(2) h2(2) by auto
  moreover have "subseq (accepted (e # es) rcs) (es1 @ es2)" using h1(2) h2(3) eq(1) by auto
  moreover have "healthy env \<longrightarrow> es1 @ es2 = e # es \<and> rcs = replicate (length (e # es)) 0"
    using h1(2) h2(4) ok(2) eq(1) by auto
  ultimately show ?case
    using http_step_trans [OF h1(1) h2(1)]
    by (intro exI [of _ "es1 @ es2"] exI [of _ "bs1 @ bs2"]) simp
qed

section \<open>Properties of the output layer\<close>

text \<open>C27: Whatever the allocator, libcurl and the server do, a run of events through the HTTP output
  keeps the batch invariant (slots in bounds, at most batch_size items) and never invents,
  duplicates or reorders an event: the batches posted, each one to retry_max_attempts + 1 times,
  followed by what is still pending are the old batch followed by a subsequence of the events, and
  every event for which output_emit_event returned 0 is in it.\<close>

theorem output_run_in_order:
  assumes "batch_ok g" "emit_all env es g w = (rcs, g', w')"
  shows "\<exists>es' bs. batch_ok g' \<and> subseq es' es \<and> subseq (accepted es rcs) es' \<and> log_ok g bs \<and>
    w_posts w' = w_posts w @ log_requests g bs \<and> log_events bs @ batch_list g' = batch_list g @ es'"
  using emit_all_step [OF assms(2,1)] unfolding http_step_def by blast

lemma log_requests_once:
  "list_all (\<lambda>(b, n). n = 1) bs \<Longrightarrow> log_requests g bs = map (\<lambda>b. http_request g (http_body b)) (map fst bs)"
  by (induction bs) (auto simp: log_requests_def)

text \<open>When nothing fails, every event is accepted, and after output_shutdown each event has been
  posted in exactly one request, in order, in batches of at most batch_size events.\<close>

theorem output_run_delivers:
  assumes "healthy env" "batch_ok g" "batch_list g = []" "emit_all env es g w = (rcs, g', w')"
    "output_shutdown env g' w' = (g'', w'')"
  shows "\<exists>bs. rcs = replicate (length es) 0 \<and> g'' = zero_output \<and> concat bs = es \<and>
    (\<forall>b \<in> set bs. b \<noteq> [] \<and> int (length b) \<le> g_batch_size g) \<and>
    w_posts w'' = w_posts w @ map (\<lambda>b. http_request g (http_body b)) bs"
proof -
  from emit_all_step [OF assms(4,2)] assms(1) obtain bs1 where
    h1: "http_step env es g w 0 g' w' bs1" "rcs = replicate (length es) 0" by blast
  then have ok: "batch_ok g'" by (simp add: http_step_def)
  obtain rc g2 w2 where s2: "http_post_batch env g' w' = (rc, g2, w2)" by (metis prod.exhaust)
  from http_post_batch_step [OF s2 ok] assms(1) obtain bs2 where
    h2: "http_step env [] g' w' rc g2 w2 bs2" "batch_list g2 = []" by (auto simp: http_step_def)
  have sd: "g'' = zero_output" "w'' = w2"
    using assms(5) s2 ok
    by (auto simp: output_shutdown_def output_flush_def batch_ok_def zero_output_def split: prod.splits)
  let ?log = "bs1 @ bs2"
  have h: "http_step env es g w rc g2 w2 ?log" using http_step_trans [OF h1(1) h2(1)] by simp
  then have ones: "list_all (\<lambda>(b, n). n = 1) ?log" using assms(1) by (simp add: http_step_def)
  note req = log_requests_once
  have "concat (map fst ?log) = es" "log_ok g ?log" "w_posts w2 = w_posts w @ log_requests g ?log"
    using h h2(2) assms(3) by (simp_all add: http_step_def log_events_def)
  moreover have "\<forall>b \<in> set (map fst ?log). b \<noteq> [] \<and> int (length b) \<le> g_batch_size g"
    using \<open>log_ok g ?log\<close> by (auto simp: log_ok_def list_all_iff)
  ultimately show ?thesis
    using h1(2) sd req [OF ones] by (intro exI [of _ "map fst ?log"]) simp
qed

text \<open>With standard output or an open file every event is accepted and appended as one line,
  in order; nothing else is written.\<close>

theorem output_lines:
  assumes "g_mode g = OUTPUT_STDOUT \<or> g_mode g = OUTPUT_FILE \<and> g_file_handle g \<noteq> None"
    "emit_all env es g w = (rcs, g', w')"
  shows "g' = g \<and> rcs = replicate (length es) 0 \<and> w_posts w' = w_posts w \<and>
    (let text = concat (map (\<lambda>e. e @ [LF]) es)
     in if g_mode g = OUTPUT_STDOUT then w_stdout w' = w_stdout w @ text \<and> w_file w' = w_file w
        else w_file w' = w_file w @ text \<and> w_stdout w' = w_stdout w)"
  using assms
proof (induction es arbitrary: w rcs)
  case (Cons e es)
  obtain rc g1 w1 where s1: "output_emit_event env (Some e) g w = (rc, g1, w1)" by (metis prod.exhaust)
  obtain rcs2 g2 w2 where s2: "emit_all env es g1 w1 = (rcs2, g2, w2)" by (metis prod.exhaust)
  have 1: "rc = 0" "g1 = g" "w_posts w1 = w_posts w"
    "w_stdout w1 = w_stdout w @ (if g_mode g = OUTPUT_STDOUT then e @ [LF] else [])"
    "w_file w1 = w_file w @ (if g_mode g = OUTPUT_STDOUT then [] else e @ [LF])"
    using s1 Cons.prems(1) by (auto simp: output_emit_event_def called_def)
  from Cons.prems(2) s1 s2 have eq: "g' = g2" "w' = w2" "rcs = rc # rcs2" by simp_all
  from Cons.IH [OF Cons.prems(1), of w1 rcs2] s2 1(2) eq have
    "g' = g \<and> rcs2 = replicate (length es) 0 \<and> w_posts w' = w_posts w1 \<and>
    (let text = concat (map (\<lambda>e. e @ [LF]) es)
     in if g_mode g = OUTPUT_STDOUT then w_stdout w' = w_stdout w1 @ text \<and> w_file w' = w_file w1
        else w_file w' = w_file w1 @ text \<and> w_stdout w' = w_stdout w1)" by simp
  with 1 eq(3) show ?case by (simp add: Let_def)
qed (simp add: Let_def)

text \<open>C28: When memory and a curl handle are available, posting a batch tries until the server accepts
  the request or refuses it for good (a 4xx status other than 429), at most retry_max_attempts + 1
  times, always with the same request; it sleeps between two attempts, never after the last; and
  it empties the batch whatever the outcome, returning 0 exactly when an attempt settled it.\<close>

theorem http_post_batch_retries:
  assumes "http_post_batch env g w = (rc, g', w')" "g_batch_count g \<noteq> 0"
    "env_alloc env (w_calls w)" "env_curl_init env (Suc (w_calls w))"
  shows "\<exists>made. g' = free_batch_items g \<and>
    attempts_outcome (\<lambda>k. env_perform env (w_calls w + 2 + k) (http_request g (http_body (batch_list g))))
      (nat (g_retry_max_attempts g + 1)) rc made \<and>
    w_posts w' = w_posts w @ replicate made (http_request g (http_body (batch_list g))) \<and>
    w_sleeps w' = w_sleeps w @ map (backoff (g_retry_backoff_seconds g)) [0..<made - 1]"
proof -
  obtain made where o: "post_outcome env g w rc g' w' made"
    using http_post_batch_outcome [OF assms(2), of env w] assms(1) by auto
  then have "rc = 0 \<or> made = nat (g_retry_max_attempts g + 1)"
    using assms(3,4) by (auto simp: post_outcome_def attempts_outcome_def Let_def)
  with o assms(3,4) show ?thesis
    by (intro exI [of _ made]) (auto simp: post_outcome_def Let_def)
qed

section \<open>Initialisation\<close>

lemma settings_simps:
  "g_batch_count (output_settings cfg) = 0" "g_batch_items (output_settings cfg) = None"
  "g_batch_capacity (output_settings cfg) = 0" "g_auth_header (output_settings cfg) = []"
  "batch_list (output_settings cfg) = []"
  by (simp_all add: output_settings_def zero_output_def batch_list_def)

text \<open>The fields of the batch after allocating it.\<close>

lemma batch_reset_fresh:
  assumes "g_batch_count g = 0" "g_batch_items g = None" "g_batch_capacity g = 0"
  shows "batch_reset env g w =
    (g\<lparr>g_batch_started := False, g_batch_capacity := 16,
       g_batch_items := (if env_alloc env (w_calls w) then Some (replicate 16 None) else None)\<rparr>, called w)"
  using assms by (simp add: batch_reset_def free_batch_items_def)

lemma init_http_spec:
  assumes "init_http env cfg (output_settings cfg) w = (None, g', w')"
  shows "w_posts w' = w_posts w \<and>
    g' = (output_settings cfg)\<lparr>g_mode := OUTPUT_HTTP_POST, g_curl_ready := True,
      g_output_url := copy_trunc 256 (case env_getenv env ''PULSE_RECEIVER_URL'' of
         Some u \<Rightarrow> u | None \<Rightarrow> output_url cfg),
      g_auth_header := copy_trunc 256 (case env_getenv env ''PULSE_AUTH_HEADER'' of
         Some a \<Rightarrow> a | None \<Rightarrow> output_auth_header cfg),
      g_batch_started := False, g_batch_capacity := 16, g_batch_items := Some (replicate 16 None)\<rparr>"
proof -
  have nil: "copy_trunc n [] = []" for n by (simp add: copy_trunc_def)
  have keep: "g_auth_header g = [] \<Longrightarrow> g\<lparr>g_auth_header := []\<rparr> = g" for g :: output_state by simp
  show ?thesis
    using assms keep
    by (auto simp: init_http_def Let_def batch_reset_fresh settings_simps nil
        split: if_split_asm option.split_asm)
qed

lemma output_settings_ranges:
  assumes "cfg_ranges cfg"
  shows "g_retry_max_attempts (output_settings cfg) = output_retry_max_attempts cfg"
    "g_batch_size (output_settings cfg) = (if output_batch_size cfg = 0 then 50 else output_batch_size cfg)"
    "g_batch_interval_seconds (output_settings cfg) =
      (if output_batch_interval_seconds cfg = 0 then 2 else output_batch_interval_seconds cfg)"
    "1 \<le> g_batch_size (output_settings cfg)" "0 \<le> g_retry_max_attempts (output_settings cfg)"
  using assms by (simp_all add: output_settings_def cfg_ranges_def)

lemma init_http_ready:
  assumes "init_http env cfg (output_settings cfg) w = (None, g', w')" "cfg_ranges cfg"
  shows "batch_ok g' \<and> batch_list g' = []"
proof -
  obtain u a where g: "g' = (output_settings cfg)\<lparr>g_mode := OUTPUT_HTTP_POST, g_curl_ready := True,
      g_output_url := u, g_auth_header := a, g_batch_started := False, g_batch_capacity := 16,
      g_batch_items := Some (replicate 16 None)\<rparr>"
    using init_http_spec [OF assms(1)] by blast
  have "batch_list g' = []" "batch_ready g'"
    by (simp_all add: g batch_list_def settings_simps batch_ready_def slots_ok_def)
  then show ?thesis
    using output_settings_ranges [OF assms(2)] by (simp add: batch_ok_def) (simp add: g)
qed

text \<open>C29: From a well-formed configuration, a successful output_init selects the configured mode
  with an empty batch whose invariant holds, takes the environment variables before the file for
  URL and authorisation, falls back to batches of 50 and 2 seconds, and performs no retry unless
  the file asks for it: the built-in default of 5 retries is never reached.\<close>

theorem output_init_spec:
  assumes "cfg_wf cfg" "output_init env (Some cfg) g w = (None, g', w')"
  shows "w_posts w' = w_posts w \<and> batch_list g' = [] \<and>
    g_retry_max_attempts g' = output_retry_max_attempts cfg \<and>
    g_batch_size g' = (if output_batch_size cfg = 0 then 50 else output_batch_size cfg) \<and>
    g_batch_interval_seconds g' =
      (if output_batch_interval_seconds cfg = 0 then 2 else output_batch_interval_seconds cfg) \<and>
    (output_type cfg = ''stdout'' \<longrightarrow> g_mode g' = OUTPUT_STDOUT) \<and>
    (output_type cfg = ''file'' \<longrightarrow> g_mode g' = OUTPUT_FILE \<and> g_file_handle g' = Some (output_path cfg) \<and>
       g_output_path g' = output_path cfg) \<and>
    (output_type cfg = ''http_post'' \<longrightarrow> batch_ok g' \<and>
       g_output_url g' = (case env_getenv env ''PULSE_RECEIVER_URL'' of
         Some u \<Rightarrow> copy_trunc 256 u | None \<Rightarrow> output_url cfg) \<and>
       g_auth_header g' = (case env_getenv env ''PULSE_AUTH_HEADER'' of
         Some a \<Rightarrow> copy_trunc 256 a | None \<Rightarrow> output_auth_header cfg))"
proof -
  have c: "output_type_ok (output_type cfg)" "cfg_ranges cfg" "cfg_buffers cfg"
    using assms(1) by (simp_all add: cfg_wf_def cfg_choices_def)
  note set = output_settings_ranges [OF c(2)]
  consider "output_type cfg = ''stdout''" | "output_type cfg = ''file''" | "output_type cfg = ''http_post''"
    using c(1) by (auto simp: output_type_ok_def)
  then show ?thesis
  proof cases
    case 1
    with assms(2) set show ?thesis by (auto simp: output_init_def Let_def batch_list_def settings_simps)
  next
    case 2
    with assms(2) set c(3) show ?thesis
      by (auto simp: output_init_def init_file_def Let_def batch_list_def settings_simps cfg_buffers_def
          split: if_split_asm)
  next
    case 3
    with assms(2) have "init_http env cfg (output_settings cfg) w = (None, g', w')"
      by (simp add: output_init_def Let_def)
    from init_http_spec [OF this] have w: "w_posts w' = w_posts w"
      and g: "g' = (output_settings cfg)\<lparr>g_mode := OUTPUT_HTTP_POST, g_curl_ready := True,
      g_output_url := copy_trunc 256 (case env_getenv env ''PULSE_RECEIVER_URL'' of
         Some u \<Rightarrow> u | None \<Rightarrow> output_url cfg),
      g_auth_header := copy_trunc 256 (case env_getenv env ''PULSE_AUTH_HEADER'' of
         Some a \<Rightarrow> a | None \<Rightarrow> output_auth_header cfg),
      g_batch_started := False, g_batch_capacity := 16, g_batch_items := Some (replicate 16 None)\<rparr>" by blast+
    have "batch_ok g' \<and> batch_list g' = []"
      using init_http_ready [OF _ c(2)] \<open>init_http env cfg (output_settings cfg) w = (None, g', w')\<close> by blast
    with 3 w set c(3) show ?thesis
      by (simp add: g cfg_buffers_def split: option.split)
  qed
qed

section \<open>Examples\<close>

text \<open>A server that accepts everything, and one that fails the first two transfers.\<close>

definition demo_env :: output_env where
  "demo_env =
     \<lparr>env_alloc = (\<lambda>_. True), env_clock = (\<lambda>n. Some \<lparr>tv_sec = int n, tv_nsec = 0\<rparr>),
      env_curl_global = True, env_curl_init = (\<lambda>_. True),
      env_perform = (\<lambda>_ _. CurlDone 200 []), env_fopen = (\<lambda>_. True), env_fflush = (\<lambda>_. True),
      env_getenv = (\<lambda>_. None)\<rparr>"

definition demo_flaky :: output_env where
  "demo_flaky = demo_env
     \<lparr>env_perform := (\<lambda>n _. if n < 8 then CurlFail else if n < 9 then CurlDone 503 [''no''] else CurlDone 202 [])\<rparr>"

definition demo_cfg :: syswatch_config where
  "demo_cfg = init_default_config
     \<lparr>output_type := ''http_post'', output_url := ''http://h'', output_batch_size := 2,
      output_retry_max_attempts := 3, output_retry_backoff_seconds := 5\<rparr>"

definition demo_world :: output_world where
  "demo_world = \<lparr>w_calls = 0, w_stdout = [], w_file = [], w_posts = [], w_sleeps = [], w_stderr = []\<rparr>"

definition demo_state :: "output_state \<times> output_world" where
  "demo_state = snd (output_init demo_env (Some demo_cfg) zero_output demo_world)"

lemma demo_init: "output_init demo_env (Some demo_cfg) zero_output demo_world = (None, demo_state)"
proof -
  have "fst (output_init demo_env (Some demo_cfg) zero_output demo_world) = None" by code_simp
  then show ?thesis by (simp add: demo_state_def prod_eq_iff)
qed

lemma demo_cfg_wf: "cfg_wf demo_cfg"
  by code_simp

lemma demo_batch_ok: "batch_ok (fst demo_state)" "batch_list (fst demo_state) = []"
proof -
  have "init_http demo_env demo_cfg (output_settings demo_cfg) demo_world = (None, demo_state)"
    using demo_init by (simp add: output_init_def demo_cfg_def)
  moreover have "cfg_ranges demo_cfg" using demo_cfg_wf by (simp add: cfg_wf_def)
  ultimately show "batch_ok (fst demo_state)" "batch_list (fst demo_state) = []"
    using init_http_ready [of demo_env demo_cfg demo_world "fst demo_state" "snd demo_state"] by simp_all
qed

definition demo_events :: "cstring list" where
  "demo_events = [''{1}'', ''{2}'', ''{3}'']"

theorem output_run_in_order_witness:
  "case emit_all demo_flaky demo_events (fst demo_state) (snd demo_state) of (rcs, g', w') \<Rightarrow>
     \<exists>es' bs. batch_ok g' \<and> subseq es' demo_events \<and> subseq (accepted demo_events rcs) es' \<and>
       log_ok (fst demo_state) bs \<and>
       w_posts w' = w_posts (snd demo_state) @ log_requests (fst demo_state) bs \<and>
       log_events bs @ batch_list g' = batch_list (fst demo_state) @ es'"
  using output_run_in_order [OF demo_batch_ok(1), of demo_flaky demo_events "snd demo_state"]
  by (simp split: prod.split)

lemma demo_env_healthy: "healthy demo_env"
  by (simp add: healthy_def demo_env_def)

theorem output_run_delivers_witness:
  "case emit_all demo_env demo_events (fst demo_state) (snd demo_state) of (rcs, g', w') \<Rightarrow>
     case output_shutdown demo_env g' w' of (g'', w'') \<Rightarrow>
       \<exists>bs. rcs = replicate (length demo_events) 0 \<and> g'' = zero_output \<and> concat bs = demo_events \<and>
         (\<forall>b \<in> set bs. b \<noteq> [] \<and> int (length b) \<le> g_batch_size (fst demo_state)) \<and>
         w_posts w'' = w_posts (snd demo_state) @ map (\<lambda>b. http_request (fst demo_state) (http_body b)) bs"
  using output_run_delivers [OF demo_env_healthy demo_batch_ok, of demo_events "snd demo_state"]
  by (simp split: prod.split)

lemma demo_lines: "emit_all demo_env demo_events zero_output demo_world =
   ([0, 0, 0], zero_output,
    demo_world\<lparr>w_stdout := ''{1}'' @ [LF] @ ''{2}'' @ [LF] @ ''{3}'' @ [LF]\<rparr>)"
  by code_simp

theorem output_lines_witness:
  "zero_output = zero_output \<and> [0, 0, 0] = replicate (length demo_events) (0 :: int) \<and>
    w_posts (demo_world\<lparr>w_stdout := ''{1}'' @ [LF] @ ''{2}'' @ [LF] @ ''{3}'' @ [LF]\<rparr>) = w_posts demo_world \<and>
    (let text = concat (map (\<lambda>e. e @ [LF]) demo_events)
     in if g_mode zero_output = OUTPUT_STDOUT
        then w_stdout (demo_world\<lparr>w_stdout := ''{1}'' @ [LF] @ ''{2}'' @ [LF] @ ''{3}'' @ [LF]\<rparr>) =
            w_stdout demo_world @ text \<and>
          w_file (demo_world\<lparr>w_stdout := ''{1}'' @ [LF] @ ''{2}'' @ [LF] @ ''{3}'' @ [LF]\<rparr>) = w_file demo_world
        else w_file (demo_world\<lparr>w_stdout := ''{1}'' @ [LF] @ ''{2}'' @ [LF] @ ''{3}'' @ [LF]\<rparr>) =
            w_file demo_world @ text \<and>
          w_stdout (demo_world\<lparr>w_stdout := ''{1}'' @ [LF] @ ''{2}'' @ [LF] @ ''{3}'' @ [LF]\<rparr>) = w_stdout demo_world)"
proof (rule output_lines [OF _ demo_lines])
  show "g_mode zero_output = OUTPUT_STDOUT \<or> g_mode zero_output = OUTPUT_FILE \<and> g_file_handle zero_output \<noteq> None"
    by (simp add: zero_output_def)
qed

text \<open>A batch of one event, posted through the server that fails three times: the sleeps are
  5, 10 and 20 seconds, and the fourth attempt settles it.\<close>

definition demo_pending :: output_state where
  "demo_pending = (fst demo_state)\<lparr>g_batch_items := Some (Some ''{1}'' # replicate 15 None), g_batch_count := 1\<rparr>"

definition demo_posted :: "rc \<times> output_state \<times> output_world" where
  "demo_posted = http_post_batch demo_flaky demo_pending (demo_world\<lparr>w_calls := 4\<rparr>)"

theorem http_post_batch_retries_witness:
  "\<exists>made. fst (snd demo_posted) = free_batch_items demo_pending \<and>
    attempts_outcome (\<lambda>k. env_perform demo_flaky (w_calls (demo_world\<lparr>w_calls := 4\<rparr>) + 2 + k)
        (http_request demo_pending (http_body (batch_list demo_pending))))
      (nat (g_retry_max_attempts demo_pending + 1)) (fst demo_posted) made \<and>
    w_posts (snd (snd demo_posted)) = w_posts (demo_world\<lparr>w_calls := 4\<rparr>) @
      replicate made (http_request demo_pending (http_body (batch_list demo_pending))) \<and>
    w_sleeps (snd (snd demo_posted)) = w_sleeps (demo_world\<lparr>w_calls := 4\<rparr>) @
      map (backoff (g_retry_backoff_seconds demo_pending)) [0..<made - 1]"
proof (rule http_post_batch_retries)
  show "http_post_batch demo_flaky demo_pending (demo_world\<lparr>w_calls := 4\<rparr>) =
      (fst demo_posted, fst (snd demo_posted), snd (snd demo_posted))"
    by (simp add: demo_posted_def)
qed (simp_all add: demo_pending_def demo_flaky_def demo_env_def)

theorem output_init_spec_witness:
  "w_posts (snd demo_state) = w_posts demo_world \<and> batch_list (fst demo_state) = [] \<and>
    g_retry_max_attempts (fst demo_state) = output_retry_max_attempts demo_cfg \<and>
    g_batch_size (fst demo_state) = (if output_batch_size demo_cfg = 0 then 50 else output_batch_size demo_cfg) \<and>
    g_batch_interval_seconds (fst demo_state) =
      (if output_batch_interval_seconds demo_cfg = 0 then 2 else output_batch_interval_seconds demo_cfg) \<and>
    batch_ok (fst demo_state) \<and> g_output_url (fst demo_state) = ''http://h''"
proof -
  have "output_init demo_env (Some demo_cfg) zero_output demo_world = (None, fst demo_state, snd demo_state)"
    by (simp add: demo_init)
  from output_init_spec [OF demo_cfg_wf this] show ?thesis by (simp add: demo_cfg_def demo_env_def)
qed

end
