(* ===== verification/Startup.thy ===== *)
theory Startup
  imports Config_Loader Output
begin

text \<open>
  The part of \<^verbatim>\<open>main\<close> in \<^verbatim>\<open>src/main.c\<close> before the threads: the command line
  (\<^verbatim>\<open>parse_args\<close>), the configuration file, its validation and the output backend. Either the
  program returns an exit code here, or it has a configuration and an output with which
  \<open>Runtime\<close> starts the threads.

  \<^verbatim>\<open>getopt_long\<close> is an argument: the list of options it yields, each with \<^verbatim>\<open>optarg\<close>, and
  the arguments left at \<^verbatim>\<open>optind\<close> when it returns \<^verbatim>\<open>-1\<close>. An option it does not know, or
  one without its argument, is in the list as \<^verbatim>\<open>'?'\<close>.
\<close>

section \<open>The command line\<close>

definition parse_int_in_range :: "cstring \<Rightarrow> int \<Rightarrow> int \<Rightarrow> int option" where
  "parse_int_in_range s min_value max_value =
     (case strtol s of
        None \<Rightarrow> None
      | Some (v, endptr, erange) \<Rightarrow>
          if erange \<or> endptr \<noteq> [] \<or> v < min_value \<or> v > max_value then None else Some v)"

definition usage_text :: "cstring \<Rightarrow> cstring" where
  "usage_text prog =
     ''Usage: '' @ prog @ '' [options]'' @ [LF] @
     ''  -i, --interval SEC      Refresh interval in seconds (default: 1)'' @ [LF] @
     ''  -n, --iterations N      Number of rows to print, 0 = infinite (default: 0)'' @ [LF] @
     ''  -c, --csv               CSV mode (no ANSI colors)'' @ [LF] @
     ''      --no-cpu            Hide CPU columns'' @ [LF] @
     ''      --no-memory         Hide memory columns'' @ [LF] @
     ''      --no-disk           Hide disk columns'' @ [LF] @
     ''      --no-network        Hide network columns'' @ [LF] @
     ''      --disk-details      Show per-disk throughput breakdown'' @ [LF] @
     ''      --net-details       Show per-interface throughput breakdown'' @ [LF] @
     ''      --include-lo        Include loopback interface in network stats'' @ [LF] @
     ''  -p, --processes         Show top processes column'' @ [LF] @
     ''  -t, --top N             Number of top processes to include (default: 5)'' @ [LF] @
     ''  -s, --proc-sort MODE    Process sort mode: cpu or mem (default: cpu)'' @ [LF] @
     ''  -h, --help              Show this help text'' @ [LF] @
     ''      --config PATH       YAML config path (use - to read stdin)'' @ [LF] @
     ''      --validate-config   Parse and validate config then exit'' @ [LF] @
     ''      --version           Print version and exit'' @ [LF]"

text \<open>Why \<^verbatim>\<open>parse_args\<close> does not return 0: it reports an error and returns -1, or it prints
  the usage or the version and exits.\<close>

datatype arg_exit =
    BadArgument cstring \<comment> \<open>the text on the standard error, empty for an unknown option\<close>
  | ShowUsage
  | ShowVersion

abbreviation opt_code :: "char \<Rightarrow> int" where
  "opt_code c \<equiv> int (char_code c)"

definition apply_option :: "int \<Rightarrow> cstring \<Rightarrow> syswatch_config \<Rightarrow> arg_exit + syswatch_config" where
  "apply_option opt optarg cfg =
     (if opt = opt_code (CHR ''i'') then
        (case parse_int_in_range optarg 1 86400 of
           None \<Rightarrow> Inl (BadArgument (''Invalid interval: '' @ optarg @ [LF]))
         | Some v \<Rightarrow> Inr (cfg\<lparr>interval_sec := v\<rparr>))
      else if opt = opt_code (CHR ''n'') then
        (case parse_int_in_range optarg 0 1000000 of
           None \<Rightarrow> Inl (BadArgument (''Invalid iterations: '' @ optarg @ [LF]))
         | Some v \<Rightarrow> Inr (cfg\<lparr>iterations := v\<rparr>))
      else if opt = opt_code (CHR ''c'') then Inr (cfg\<lparr>csv_mode := True\<rparr>)
      else if opt = opt_code (CHR ''p'') then Inr (cfg\<lparr>show_processes := True\<rparr>)
      else if opt = opt_code (CHR ''t'') then
        (case parse_int_in_range optarg 1 1000 of
           None \<Rightarrow> Inl (BadArgument (''Invalid top value: '' @ optarg @ [LF]))
         | Some v \<Rightarrow> Inr (cfg\<lparr>top_n := v\<rparr>))
      else if opt = opt_code (CHR ''s'') then
        if optarg = ''cpu'' then Inr (cfg\<lparr>process_sort := PROCESS_SORT_CPU\<rparr>)
        else if optarg = ''mem'' then Inr (cfg\<lparr>process_sort := PROCESS_SORT_MEM\<rparr>)
        else Inl (BadArgument (''Invalid process sort mode: '' @ optarg @ [LF]))
      else if opt = opt_code (CHR ''h'') then Inl ShowUsage
      else if opt = 2001 then Inr (cfg\<lparr>config_path := copy_trunc 256 optarg\<rparr>)
      else if opt = 2002 then Inr (cfg\<lparr>validate_only := True\<rparr>)
      else if opt = 2003 then Inl ShowVersion
      else if opt = 1000 then Inr (cfg\<lparr>show_cpu := False\<rparr>)
      else if opt = 1001 then Inr (cfg\<lparr>show_memory := False\<rparr>)
      else if opt = 1002 then Inr (cfg\<lparr>show_disk := False\<rparr>)
      else if opt = 1003 then Inr (cfg\<lparr>show_network := False\<rparr>)
      else if opt = 1004 then Inr (cfg\<lparr>include_loopback := True\<rparr>)
      else if opt = 1005 then Inr (cfg\<lparr>show_disk_details := True\<rparr>)
      else if opt = 1006 then Inr (cfg\<lparr>show_network_details := True\<rparr>)
      else Inl (BadArgument []))"

fun option_loop :: "(int \<times> cstring) list \<Rightarrow> syswatch_config \<Rightarrow> arg_exit + syswatch_config" where
  "option_loop [] cfg = Inr cfg"
| "option_loop ((opt, optarg) # opts) cfg =
     (case apply_option opt optarg cfg of
        Inl e \<Rightarrow> Inl e
      | Inr cfg \<Rightarrow> option_loop opts cfg)"

text \<open>\<open>args\<close> are the arguments from \<^verbatim>\<open>optind\<close> on.\<close>

definition parse_args ::
  "(int \<times> cstring) list \<Rightarrow> cstring list \<Rightarrow> syswatch_config option \<Rightarrow> arg_exit + syswatch_config" where
  "parse_args opts args cfgp =
     (case cfgp of
        None \<Rightarrow> Inl (BadArgument [])
      | Some cfg \<Rightarrow>
          (case option_loop opts cfg of
             Inl e \<Rightarrow> Inl e
           | Inr cfg \<Rightarrow>
               let (cfg, args) =
                     (if validate_only cfg \<and> config_path cfg = [] \<and> args \<noteq> []
                      then (cfg\<lparr>config_path := copy_trunc 256 (hd args)\<rparr>, tl args)
                      else (cfg, args))
               in if args \<noteq> [] then Inl (BadArgument (''Unexpected argument: '' @ hd args @ [LF]))
                  else if \<not> show_cpu cfg \<and> \<not> show_memory cfg \<and> \<not> show_disk cfg \<and> \<not> show_network cfg \<and>
                    \<not> show_processes cfg
                  then Inl (BadArgument
                    (''All columns are disabled. Enable at least one metric.'' @ [LF]))
                  else Inr cfg))"

lemma opt_codes:
  "opt_code (CHR ''i'') = 105" "opt_code (CHR ''n'') = 110" "opt_code (CHR ''c'') = 99" "opt_code (CHR ''p'') = 112"
  "opt_code (CHR ''t'') = 116" "opt_code (CHR ''s'') = 115" "opt_code (CHR ''h'') = 104"
  by (simp_all add: char_code_def)

lemma apply_option_simps:
  "apply_option (opt_code (CHR ''n'')) arg cfg =
     (case parse_int_in_range arg 0 1000000 of
        None \<Rightarrow> Inl (BadArgument (''Invalid iterations: '' @ arg @ [LF]))
      | Some v \<Rightarrow> Inr (cfg\<lparr>iterations := v\<rparr>))"
  "apply_option (opt_code (CHR ''t'')) arg cfg =
     (case parse_int_in_range arg 1 1000 of
        None \<Rightarrow> Inl (BadArgument (''Invalid top value: '' @ arg @ [LF]))
      | Some v \<Rightarrow> Inr (cfg\<lparr>top_n := v\<rparr>))"
  "apply_option (opt_code (CHR ''s'')) ''cpu'' cfg = Inr (cfg\<lparr>process_sort := PROCESS_SORT_CPU\<rparr>)"
  "apply_option (opt_code (CHR ''s'')) ''mem'' cfg = Inr (cfg\<lparr>process_sort := PROCESS_SORT_MEM\<rparr>)"
  "apply_option (opt_code (CHR ''c'')) arg cfg = Inr (cfg\<lparr>csv_mode := True\<rparr>)"
  "apply_option 2001 arg cfg = Inr (cfg\<lparr>config_path := copy_trunc 256 arg\<rparr>)"
  "apply_option 2002 arg cfg = Inr (cfg\<lparr>validate_only := True\<rparr>)"
  "apply_option 1004 arg cfg = Inr (cfg\<lparr>include_loopback := True\<rparr>)"
  "apply_option 1005 arg cfg = Inr (cfg\<lparr>show_disk_details := True\<rparr>)"
  "apply_option 1006 arg cfg = Inr (cfg\<lparr>show_network_details := True\<rparr>)"
  by (simp_all only: apply_option_def opt_codes rel_simps simp_thms if_True if_False list.inject char.inject list.distinct)

section \<open>From the command line to the threads\<close>

record main_env =
  me_prog :: cstring
  me_opts :: "(int \<times> cstring) list"
  me_args :: "cstring list"
  me_open :: "cstring \<Rightarrow> char list option"
  me_stdin :: "char list"
  me_output :: output_env
  me_malloc :: bool \<comment> \<open>whether the allocation for a long message succeeds\<close>
  me_strdup :: bool \<comment> \<open>whether copying a message succeeds\<close>

definition print :: "cstring \<Rightarrow> output_world \<Rightarrow> output_world" where
  "print s w = w\<lparr>w_stdout := w_stdout w @ s\<rparr>"

definition mode_report :: "int \<Rightarrow> cstring" where
  "mode_report mode =
     ''syswatch: runtime backend='' @
     (if mode = 0 then ''stdout'' else if mode = 1 then ''file'' else if mode = 2 then ''http_post''
      else ''unknown('' @ show_int mode @ '')'') @ [LF]"

text \<open>The message main prints for an error that it got, or not: \<^verbatim>\<open>err ? err : "unknown"\<close>.\<close>

definition shown :: "cstring \<Rightarrow> cstring option \<Rightarrow> cstring" where
  "shown fallback err = (case err of None \<Rightarrow> fallback | Some s \<Rightarrow> s)"

text \<open>\<open>Inl\<close>: the exit code. \<open>Inr\<close>: what the threads start with.\<close>

definition main_setup ::
  "main_env \<Rightarrow> output_state \<Rightarrow> output_world
     \<Rightarrow> int \<times> output_world + syswatch_config \<times> output_state \<times> output_world" where
  "main_setup me g w =
     (case parse_args (me_opts me) (me_args me) (Some init_default_config) of
        Inl ShowUsage \<Rightarrow> Inl (0, print (usage_text (me_prog me)) w)
      | Inl ShowVersion \<Rightarrow> Inl (0, print (''syswatch 0.1.1'' @ [LF]) w)
      | Inl (BadArgument msg) \<Rightarrow> Inl (1, print (usage_text (me_prog me)) (eprint msg w))
      | Inr cfg \<Rightarrow>
          if config_path cfg = [] then
            Inl (1, print (usage_text (me_prog me)) (eprint (''--config <path> is required'' @ [LF]) w))
          else
            (case load_config_file (me_open me) (me_stdin me) (Some (config_path cfg)) (Some cfg) of
               (_, Some e) \<Rightarrow>
               Inl (2, eprint (''config load error: '' @
                 shown ''unknown'' (set_error (me_malloc me) (me_strdup me) e) @ [LF]) w)
             | (None, None) \<Rightarrow> Inl (2, w)
             | (Some cfg, None) \<Rightarrow>
                 if validate_only cfg then
                   (case validate_config (Some cfg) of
                      Some e \<Rightarrow>
                        Inl (3, eprint (''config validation failed: '' @
                          shown ''error'' (set_error (me_malloc me) (me_strdup me) e) @ [LF]) w)
                    | None \<Rightarrow> Inl (0, print (''config OK'' @ [LF]) w))
                 else
                   (case output_init (me_output me) (Some cfg) g w of
                      (Some e, g, w) \<Rightarrow>
                        Inl (4, eprint (''output init failed: '' @
                          shown ''unknown'' (strdup (me_strdup me) (output_error_message e)) @ [LF]) w)
                    | (None, g, w) \<Rightarrow> Inr (cfg, g, eprint (mode_report (output_get_mode g)) w))))"

section \<open>What the command line can set\<close>

lemma parse_int_in_range_value: "parse_int_in_range s lo hi = parse_int_value s lo hi"
  by (simp add: parse_int_in_range_def parse_int_value_def)

lemma apply_option_wf:
  assumes "apply_option opt optarg cfg = Inr cfg'" "cfg_wf cfg"
  shows "cfg_wf cfg'"
  using assms
  by (auto simp: apply_option_def parse_int_in_range_value dest!: parse_int_value_bounds intro!: wf_intros
      split: if_split_asm option.split_asm)

text \<open>The fields only the configuration file sets.\<close>

definition file_fields :: "syswatch_config \<Rightarrow> cstring list \<times> int list" where
  "file_fields c =
     ([config_version c, host_override c, output_type c, output_url c, output_path c, output_auth_header c,
       log_level c, log_destination c, log_path c],
      [output_batch_size c, output_batch_interval_seconds c, output_retry_max_attempts c,
       output_retry_backoff_seconds c])"

lemma apply_option_file_fields:
  "apply_option opt optarg cfg = Inr cfg' \<Longrightarrow> file_fields cfg' = file_fields cfg"
  by (auto simp: apply_option_def file_fields_def split: if_split_asm option.split_asm)

lemma option_loop_ok:
  "option_loop opts cfg = Inr cfg' \<Longrightarrow>
     (cfg_wf cfg \<longrightarrow> cfg_wf cfg') \<and> file_fields cfg' = file_fields cfg"
proof (induction opts cfg rule: option_loop.induct)
  case (2 opt optarg opts cfg)
  then obtain c where "apply_option opt optarg cfg = Inr c" "option_loop opts c = Inr cfg'"
    by (auto split: sum.split_asm)
  with 2 show ?case by (auto simp: apply_option_file_fields dest: apply_option_wf)
qed simp

lemma option_loop_append:
  "option_loop (opts @ opts') cfg =
     (case option_loop opts cfg of Inl e \<Rightarrow> Inl e | Inr c \<Rightarrow> option_loop opts' c)"
  by (induction opts cfg rule: option_loop.induct) (auto split: sum.split)

definition some_category :: "syswatch_config \<Rightarrow> bool" where
  "some_category c \<longleftrightarrow> show_cpu c \<or> show_memory c \<or> show_disk c \<or> show_network c \<or> show_processes c"

lemma parse_args_ok:
  assumes "parse_args opts args (Some cfg) = Inr cfg'" "cfg_wf cfg"
  shows "cfg_wf cfg'" "file_fields cfg' = file_fields cfg" "some_category cfg'"
proof -
  obtain c where c: "option_loop opts cfg = Inr c"
    and r: "cfg' = c \<or> cfg' = c\<lparr>config_path := copy_trunc 256 (hd args)\<rparr>" "some_category cfg'"
    using assms(1)
    by (auto simp: parse_args_def some_category_def Let_def split: sum.split_asm if_split_asm)
  show "cfg_wf cfg'" "file_fields cfg' = file_fields cfg"
    using r(1) option_loop_ok [OF c] assms(2) by (auto simp: file_fields_def intro: wf_intros)
  show "some_category cfg'" by (rule r)
qed

text \<open>Whatever the command line holds, a configuration that parse_args accepts is well-formed when
  the one it started from is, has at least one category enabled, and differs from it only in the fields
  that have an option.\<close>

theorem parse_args_wf:
  assumes "parse_args opts args (Some cfg) = Inr cfg'" "cfg_wf cfg"
  shows "cfg_wf cfg' \<and> some_category cfg' \<and> file_fields cfg' = file_fields cfg"
  using parse_args_ok [OF assms] by simp

section \<open>The exit codes\<close>

lemma eprint_eqs [simp]:
  "w_stdout (eprint s w) = w_stdout w" "w_stderr (eprint s w) = w_stderr w @ s"
  "w_posts (eprint s w) = w_posts w" "w_file (eprint s w) = w_file w" "w_sleeps (eprint s w) = w_sleeps w"
  by (simp_all add: eprint_def)

lemma print_eqs [simp]:
  "w_stdout (print s w) = w_stdout w @ s" "w_stderr (print s w) = w_stderr w"
  "w_posts (print s w) = w_posts w" "w_file (print s w) = w_file w" "w_sleeps (print s w) = w_sleeps w"
  by (simp_all add: print_def)

text \<open>What a world has shown so far, and that a later one only adds to the standard error.\<close>

definition only_stderr :: "output_world \<Rightarrow> output_world \<Rightarrow> bool" where
  "only_stderr w w' \<longleftrightarrow>
     w_stdout w' = w_stdout w \<and> w_file w' = w_file w \<and> w_posts w' = w_posts w \<and>
     w_sleeps w' = w_sleeps w \<and> prefix (w_stderr w) (w_stderr w')"

lemma only_stderr_intros:
  "only_stderr w w" "only_stderr w w' \<Longrightarrow> only_stderr w (eprint s w')"
  "only_stderr w w' \<Longrightarrow> only_stderr w (called w')"
  by (auto simp: only_stderr_def called_def)

lemma batch_reset_stderr: "only_stderr w w1 \<Longrightarrow> batch_reset env g w1 = (g', w') \<Longrightarrow> only_stderr w w'"
  by (auto simp: batch_reset_def Let_def intro: only_stderr_intros split: if_split_asm)

lemma init_http_stderr:
  assumes "init_http env cfg g w = (e, g', w')"
  shows "only_stderr w w'"
  using assms unfolding init_http_def Let_def
  by (auto split: if_split_asm prod.split_asm intro: only_stderr_intros elim!: batch_reset_stderr [rotated])

lemma output_init_stderr:
  assumes "output_init env (Some cfg) g w = (e, g', w')"
  shows "only_stderr w w'"
  using assms
  by (auto simp: output_init_def init_file_def Let_def intro: only_stderr_intros init_http_stderr
      split: if_split_asm)

lemma load_result: "\<exists>c e. load_config_file open_file stdin path (Some cfg) = (Some c, e)"
  by (auto simp: load_config_file_def prod.case_eq_if split: option.split)

lemma main_setup_exits:
  assumes "main_setup me g w = Inl (code, w')"
  obtains (usage) "code = 0" "w' = print (usage_text (me_prog me)) w"
    | (version) "code = 0" "w' = print (''syswatch 0.1.1'' @ [LF]) w"
    | (argument) msg where "code = 1" "w' = print (usage_text (me_prog me)) (eprint msg w)"
    | (valid) "code = 0" "w' = print (''config OK'' @ [LF]) w"
    | (failed) w1 msg where "code = 2 \<or> code = 3 \<or> code = 4" "only_stderr w w1" "w' = eprint (msg @ [LF]) w1"
proof (cases "parse_args (me_opts me) (me_args me) (Some init_default_config)")
  case (Inl e)
  with assms usage version argument show ?thesis by (cases e) (auto simp: main_setup_def)
next
  case (Inr c)
  show ?thesis
  proof (cases "config_path c = []")
    case True
    with Inr assms argument show ?thesis by (auto simp: main_setup_def)
  next
    case False
    obtain cfg e where l: "load_config_file (me_open me) (me_stdin me) (Some (config_path c)) (Some c) = (Some cfg, e)"
      using load_result by blast
    obtain oe g1 w1 where o: "output_init (me_output me) (Some cfg) g w = (oe, g1, w1)"
      by (metis prod.exhaust)
    consider e' where "e = Some e'" | "e = None" "validate_only cfg" | "e = None" "\<not> validate_only cfg"
      by blast
    then show ?thesis
    proof cases
      case (1 e')
      with assms Inr False l have "code = 2" "w' = eprint ((''config load error: '' @
          shown ''unknown'' (set_error (me_malloc me) (me_strdup me) e')) @ [LF]) w"
        by (simp_all add: main_setup_def)
      with failed [of w] show ?thesis by (blast intro: only_stderr_intros)
    next
      case 2
      show ?thesis
      proof (cases "validate_config (Some cfg)")
        case None
        with assms Inr False l 2 valid show ?thesis by (simp add: main_setup_def)
      next
        case (Some v)
        with assms Inr False l 2
        have "code = 3" "w' = eprint ((''config validation failed: '' @
            shown ''error'' (set_error (me_malloc me) (me_strdup me) v)) @ [LF]) w"
          by (simp_all add: main_setup_def)
        with failed [of w] show ?thesis by (blast intro: only_stderr_intros)
      qed
    next
      case 3
      then obtain x where x: "oe = Some x" using assms Inr False l o by (cases oe) (simp_all add: main_setup_def)
      with assms Inr False l o 3
      have "code = 4" "w' = eprint ((''output init failed: '' @
          shown ''unknown'' (strdup (me_strdup me) (output_error_message x))) @ [LF]) w1"
        by (simp_all add: main_setup_def)
      with failed [OF _ output_init_stderr [OF o]] show ?thesis by blast
    qed
  qed
qed

text \<open>C12: main leaves before the threads with one of five codes. Code 0 is the usage, the version
  or a valid configuration, with nothing on the standard error; code 1 prints the usage; codes 2, 3 and
  4 print only a message on the standard error. Nothing has been sent, written to a file or slept.\<close>

theorem main_setup_exit:
  assumes "main_setup me g w = Inl (code, w')"
  shows "code \<in> {0, 1, 2, 3, 4} \<and> w_posts w' = w_posts w \<and> w_file w' = w_file w \<and> w_sleeps w' = w_sleeps w \<and>
    (code = 0 \<longrightarrow> w_stderr w' = w_stderr w \<and>
       (\<exists>t \<in> {usage_text (me_prog me), ''syswatch 0.1.1'' @ [LF], ''config OK'' @ [LF]}.
          w_stdout w' = w_stdout w @ t)) \<and>
    (code = 1 \<longrightarrow> w_stdout w' = w_stdout w @ usage_text (me_prog me)) \<and>
    (2 \<le> code \<longrightarrow> w_stdout w' = w_stdout w \<and> strict_prefix (w_stderr w) (w_stderr w'))"
  using assms
  by (cases rule: main_setup_exits) (auto simp: only_stderr_def prefix_def strict_prefix_def)

section \<open>What the threads start with\<close>

text \<open>Past the command line: the file and the output.\<close>

lemma main_setup_cases:
  assumes "main_setup me g w = Inr (cfg, g', w')"
  obtains c w1 where "parse_args (me_opts me) (me_args me) (Some init_default_config) = Inr c"
    "config_path c \<noteq> []"
    "load_config_file (me_open me) (me_stdin me) (Some (config_path c)) (Some c) = (Some cfg, None)"
    "\<not> validate_only cfg" "output_init (me_output me) (Some cfg) g w = (None, g', w1)"
    "w' = eprint (mode_report (output_get_mode g')) w1"
proof -
  obtain c where c: "parse_args (me_opts me) (me_args me) (Some init_default_config) = Inr c"
    using assms by (cases "parse_args (me_opts me) (me_args me) (Some init_default_config)")
      (simp_all add: main_setup_def split: arg_exit.split_asm)
  obtain cfg1 e where l:
    "load_config_file (me_open me) (me_stdin me) (Some (config_path c)) (Some c) = (Some cfg1, e)"
    using load_result by blast
  obtain oe g1 w1 where o: "output_init (me_output me) (Some cfg1) g w = (oe, g1, w1)"
    by (metis prod.exhaust)
  have "config_path c \<noteq> []" using assms c by (auto simp: main_setup_def)
  moreover from this assms c l o have "e = None \<and> \<not> validate_only cfg1 \<and> oe = None \<and> cfg1 = cfg \<and> g1 = g' \<and>
      w' = eprint (mode_report (output_get_mode g1)) w1"
    by (auto simp: main_setup_def split: option.split_asm if_split_asm)
  ultimately show ?thesis using that c l o by blast
qed

lemma output_init_modes:
  assumes "output_init env (Some cfg) g w = (None, g', w')" "cfg_wf cfg"
  shows "output_type cfg = ''stdout'' \<longleftrightarrow> g_mode g' = OUTPUT_STDOUT"
    "output_type cfg = ''file'' \<longleftrightarrow> g_mode g' = OUTPUT_FILE"
    "output_type cfg = ''http_post'' \<longleftrightarrow> g_mode g' = OUTPUT_HTTP_POST"
    "g_mode g' = OUTPUT_HTTP_POST \<Longrightarrow> batch_ok g' \<and> batch_list g' = []"
    "g_mode g' = OUTPUT_FILE \<Longrightarrow> g_file_handle g' = Some (output_path cfg)"
proof -
  have c: "output_type_ok (output_type cfg)" "cfg_ranges cfg"
    using assms(2) by (simp_all add: cfg_wf_def cfg_choices_def)
  have http: "init_http env cfg (output_settings cfg) w = (None, g', w')" if "output_type cfg = ''http_post''"
    using that assms(1) by (simp add: output_init_def)
  have "g_mode g' = (if output_type cfg = ''stdout'' then OUTPUT_STDOUT
      else if output_type cfg = ''file'' then OUTPUT_FILE else OUTPUT_HTTP_POST)"
  proof (cases "output_type cfg = ''http_post''")
    case True
    then show ?thesis using init_http_spec [OF http [OF True]] by simp
  next
    case False
    then show ?thesis
      using assms(1) c(1) by (auto simp: output_init_def init_file_def output_type_ok_def Let_def split: if_split_asm)
  qed
  then show "output_type cfg = ''stdout'' \<longleftrightarrow> g_mode g' = OUTPUT_STDOUT"
    "output_type cfg = ''file'' \<longleftrightarrow> g_mode g' = OUTPUT_FILE"
    "output_type cfg = ''http_post'' \<longleftrightarrow> g_mode g' = OUTPUT_HTTP_POST"
    "g_mode g' = OUTPUT_HTTP_POST \<Longrightarrow> batch_ok g' \<and> batch_list g' = []"
    using c(1) init_http_ready [OF http c(2)] by (auto simp: output_type_ok_def)
  then show "g_mode g' = OUTPUT_FILE \<Longrightarrow> g_file_handle g' = Some (output_path cfg)"
    using assms(1) by (auto simp: output_init_def init_file_def Let_def split: if_split_asm)
qed

lemma main_setup_facts:
  assumes "main_setup me g w = Inr (cfg, g', w')"
  shows "cfg_wf cfg" "config_path cfg \<noteq> []" "\<not> validate_only cfg" "only_stderr w w'"
    "output_type cfg = ''stdout'' \<longleftrightarrow> g_mode g' = OUTPUT_STDOUT"
    "output_type cfg = ''file'' \<longleftrightarrow> g_mode g' = OUTPUT_FILE"
    "output_type cfg = ''http_post'' \<longleftrightarrow> g_mode g' = OUTPUT_HTTP_POST"
    "g_mode g' = OUTPUT_HTTP_POST \<Longrightarrow> batch_ok g' \<and> batch_list g' = []"
    "g_mode g' = OUTPUT_FILE \<Longrightarrow> g_file_handle g' = Some (output_path cfg)"
proof -
  obtain c w1 where c: "parse_args (me_opts me) (me_args me) (Some init_default_config) = Inr c"
    "config_path c \<noteq> []"
    and l: "load_config_file (me_open me) (me_stdin me) (Some (config_path c)) (Some c) = (Some cfg, None)"
    and o: "\<not> validate_only cfg" "output_init (me_output me) (Some cfg) g w = (None, g', w1)"
      "w' = eprint (mode_report (output_get_mode g')) w1"
    using assms by (rule main_setup_cases)
  have wf: "cfg_wf cfg"
    using load_config_file_ok [OF l] parse_args_ok(1) [OF c(1) cfg_wf_default] by blast
  have "only_stderr w w1" by (rule output_init_stderr [OF o(2)])
  then show "cfg_wf cfg" "config_path cfg \<noteq> []" "\<not> validate_only cfg" "only_stderr w w'"
    using wf c(2) load_config_file_ok [OF l] o(1,3) by (auto simp: cli_fields_def intro: only_stderr_intros)
  note m = output_init_modes [OF o(2) wf]
  show "output_type cfg = ''stdout'' \<longleftrightarrow> g_mode g' = OUTPUT_STDOUT"
    "output_type cfg = ''file'' \<longleftrightarrow> g_mode g' = OUTPUT_FILE"
    "output_type cfg = ''http_post'' \<longleftrightarrow> g_mode g' = OUTPUT_HTTP_POST"
    "g_mode g' = OUTPUT_HTTP_POST \<Longrightarrow> batch_ok g' \<and> batch_list g' = []"
    "g_mode g' = OUTPUT_FILE \<Longrightarrow> g_file_handle g' = Some (output_path cfg)"
    by (fact m)+
qed

text \<open>C13: When main reaches the threads the configuration is well-formed and from a file, validation
  was not asked for, the output is in the mode the file names, an HTTP batch is empty and satisfies its
  invariant, an output file is open, and only the standard error has been written to.\<close>

theorem main_setup_ready:
  assumes "main_setup me g w = Inr (cfg, g', w')"
  shows "cfg_wf cfg \<and> config_path cfg \<noteq> [] \<and> \<not> validate_only cfg \<and> only_stderr w w' \<and>
    (output_type cfg = ''stdout'' \<longleftrightarrow> g_mode g' = OUTPUT_STDOUT) \<and>
    (output_type cfg = ''file'' \<longleftrightarrow> g_mode g' = OUTPUT_FILE) \<and>
    (output_type cfg = ''http_post'' \<longleftrightarrow> g_mode g' = OUTPUT_HTTP_POST) \<and>
    (g_mode g' = OUTPUT_HTTP_POST \<longrightarrow> batch_ok g' \<and> batch_list g' = []) \<and>
    (g_mode g' = OUTPUT_FILE \<longrightarrow> g_file_handle g' = Some (output_path cfg))"
  using main_setup_facts [OF assms] by blast

section \<open>Validating and running\<close>

text \<open>The loader never looks at the flag.\<close>

abbreviation with_flag :: "bool \<Rightarrow> syswatch_config \<Rightarrow> syswatch_config" where
  "with_flag b c \<equiv> c\<lparr>validate_only := b\<rparr>"

lemma flag_last:
  "c\<lparr>validate_only := b, config_version := x0\<rparr> = c\<lparr>config_version := x0, validate_only := b\<rparr>"
  "c\<lparr>validate_only := b, interval_sec := x1\<rparr> = c\<lparr>interval_sec := x1, validate_only := b\<rparr>"
  "c\<lparr>validate_only := b, host_override := x2\<rparr> = c\<lparr>host_override := x2, validate_only := b\<rparr>"
  "c\<lparr>validate_only := b, output_type := x3\<rparr> = c\<lparr>output_type := x3, validate_only := b\<rparr>"
  "c\<lparr>validate_only := b, output_url := x4\<rparr> = c\<lparr>output_url := x4, validate_only := b\<rparr>"
  "c\<lparr>validate_only := b, output_path := x5\<rparr> = c\<lparr>output_path := x5, validate_only := b\<rparr>"
  "c\<lparr>validate_only := b, output_batch_size := x6\<rparr> = c\<lparr>output_batch_size := x6, validate_only := b\<rparr>"
  "c\<lparr>validate_only := b, output_batch_interval_seconds := x7\<rparr> = c\<lparr>output_batch_interval_seconds := x7, validate_only := b\<rparr>"
  "c\<lparr>validate_only := b, output_retry_max_attempts := x8\<rparr> = c\<lparr>output_retry_max_attempts := x8, validate_only := b\<rparr>"
  "c\<lparr>validate_only := b, output_retry_backoff_seconds := x9\<rparr> = c\<lparr>output_retry_backoff_seconds := x9, validate_only := b\<rparr>"
  "c\<lparr>validate_only := b, output_auth_header := x10\<rparr> = c\<lparr>output_auth_header := x10, validate_only := b\<rparr>"
  "c\<lparr>validate_only := b, show_cpu := x11\<rparr> = c\<lparr>show_cpu := x11, validate_only := b\<rparr>"
  "c\<lparr>validate_only := b, show_memory := x12\<rparr> = c\<lparr>show_memory := x12, validate_only := b\<rparr>"
  "c\<lparr>validate_only := b, show_disk := x13\<rparr> = c\<lparr>show_disk := x13, validate_only := b\<rparr>"
  "c\<lparr>validate_only := b, show_network := x14\<rparr> = c\<lparr>show_network := x14, validate_only := b\<rparr>"
  "c\<lparr>validate_only := b, show_processes := x15\<rparr> = c\<lparr>show_processes := x15, validate_only := b\<rparr>"
  "c\<lparr>validate_only := b, log_level := x16\<rparr> = c\<lparr>log_level := x16, validate_only := b\<rparr>"
  "c\<lparr>validate_only := b, log_destination := x17\<rparr> = c\<lparr>log_destination := x17, validate_only := b\<rparr>"
  "c\<lparr>validate_only := b, log_path := x18\<rparr> = c\<lparr>log_path := x18, validate_only := b\<rparr>"
  by simp_all

lemma map_sum_into:
  "map_sum f g (if b then r1 else r2) = (if b then map_sum f g r1 else map_sum f g r2)"
  "map_sum f g (case x of None \<Rightarrow> r1 | Some v \<Rightarrow> h v) = (case x of None \<Rightarrow> map_sum f g r1 | Some v \<Rightarrow> map_sum f g (h v))"
  by (simp_all split: option.split)

lemma setters_flag:
  "set_scalar_top_level (with_flag b c) key val n = map_sum id (with_flag b) (set_scalar_top_level c key val n)"
  "set_output_key (with_flag b c) key val n = map_sum id (with_flag b) (set_output_key c key val n)"
  "set_collect_key (with_flag b c) key val n = map_sum id (with_flag b) (set_collect_key c key val n)"
  "set_log_key (with_flag b c) key val n = map_sum id (with_flag b) (set_log_key c key val n)"
  by (simp_all add: set_scalar_top_level_def set_output_key_def set_collect_key_def set_log_key_def map_sum_into flag_last
      cong: if_cong option.case_cong split del: if_split)

lemma map_sum_swap:
  "map_sum id (Pair sect) (map_sum id f r) = map_sum id (map_prod id f) (map_sum id (Pair sect) r)"
  by (cases r) simp_all

lemma load_line_flag:
  "load_line n l (sect, with_flag b c) = map_sum id (map_prod id (with_flag b)) (load_line n l (sect, c))"
  by (cases sect) (simp_all add: load_line_def apply_line_def setters_flag map_sum_swap split: sum.split option.split)

lemma load_lines_flag:
  "load_lines n ls (sect, with_flag b c) =
     map_prod (map_prod id (with_flag b)) id (load_lines n ls (sect, c))"
proof (induction ls arbitrary: n sect c)
  case (Cons l ls)
  show ?case
  proof (cases "load_line (n + 1) l (sect, c)")
    case (Inr st)
    then show ?thesis using Cons.IH by (cases st) (simp add: load_line_flag)
  qed (simp add: load_line_flag)
qed simp

lemma load_config_file_flag:
  "load_config_file f inp path (Some (with_flag b c)) =
     map_prod (map_option (with_flag b)) id (load_config_file f inp path (Some c))"
  by (auto simp: load_config_file_def load_lines_flag prod.case_eq_if map_prod_def split: option.split)

text \<open>The same command line with \<^verbatim>\<open>--validate-config\<close> at its end.\<close>

definition validating :: "main_env \<Rightarrow> main_env" where
  "validating me = me\<lparr>me_opts := me_opts me @ [(2002, [])]\<rparr>"

lemma validating_heap [simp]: "me_malloc (validating me) = me_malloc me" "me_strdup (validating me) = me_strdup me"
  by (simp_all add: validating_def)

lemma parse_args_validating:
  assumes "parse_args opts args (Some cfg) = Inr c" "\<not> validate_only c"
  shows "parse_args (opts @ [(2002, [])]) args (Some cfg) = Inr (with_flag True c)"
proof -
  have "option_loop opts cfg = Inr c" "args = []" "some_category c"
    using assms by (auto simp: parse_args_def some_category_def Let_def split: sum.split_asm if_split_asm)
  then show ?thesis
    by (auto simp: parse_args_def option_loop_append apply_option_simps some_category_def)
qed

lemma main_setup_validating:
  assumes "parse_args (me_opts me) (me_args me) (Some init_default_config) = Inr c" "\<not> validate_only c"
    "config_path c \<noteq> []"
    "load_config_file (me_open me) (me_stdin me) (Some (config_path c)) (Some c) = (Some cfg, None)"
  shows "main_setup (validating me) g w =
    (case validate_config (Some cfg) of
       Some e \<Rightarrow> Inl (3, eprint (''config validation failed: '' @
         shown ''error'' (set_error (me_malloc me) (me_strdup me) e) @ [LF]) w)
     | None \<Rightarrow> Inl (0, print (''config OK'' @ [LF]) w))"
proof -
  have "parse_args (me_opts (validating me)) (me_args (validating me)) (Some init_default_config) =
      Inr (with_flag True c)"
    using parse_args_validating [OF assms(1,2)] by (simp add: validating_def)
  moreover have "validate_config (Some (with_flag True cfg)) = validate_config (Some cfg)"
    by (simp add: validate_config_def)
  moreover have "load_config_file (me_open (validating me)) (me_stdin (validating me))
      (Some (config_path (with_flag True c))) (Some (with_flag True c)) = (Some (with_flag True cfg), None)"
    using assms(4) load_config_file_flag [of _ _ _ True c] by (simp add: validating_def)
  ultimately show ?thesis using assms(3) by (simp add: main_setup_def split: option.split)
qed

lemma init_works:
  assumes "validate_config (Some cfg) = None" "cfg_wf cfg"
    "env_fopen env (output_path cfg)" "env_curl_global env" "env_alloc env (w_calls w)"
  shows "\<exists>g' w'. output_init env (Some cfg) g w = (None, g', w')"
proof -
  have "\<not> (output_type cfg = ''file'' \<and> output_path cfg = [])"
    "\<not> (output_type cfg = ''http_post'' \<and> output_url cfg = [])"
    using assms(1) unfolding validate_wf [OF assms(2)] by (simp_all split: if_split_asm)
  moreover have "output_type_ok (output_type cfg)" using assms(2) by (simp add: cfg_wf_def cfg_choices_def)
  ultimately show ?thesis
    using assms(3-5)
    by (auto simp: output_init_def init_file_def init_http_def Let_def batch_reset_fresh settings_simps
        eprint_def output_type_ok_def split: option.split)
qed

text \<open>C14: Validation is sound for a command line that parses on its own: when a command that parse_args
  accepts, and that does not ask for validation itself, prints with --validate-config appended that
  the configuration is valid, then as it stands it reaches the threads, provided that the output file
  can be opened, libcurl initialises and the batch can be allocated. (A command that names the file
  only as the argument of --validate-config does not parse without the option.)\<close>

theorem validate_sound:
  assumes "parse_args (me_opts me) (me_args me) (Some init_default_config) = Inr c" "\<not> validate_only c"
    "main_setup (validating me) g w = Inl (0, w1)"
    "\<And>path. env_fopen (me_output me) path" "env_curl_global (me_output me)"
    "env_alloc (me_output me) (w_calls w)"
  shows "\<exists>cfg g' w'. main_setup me g w = Inr (cfg, g', w')"
proof -
  note p = parse_args_validating [OF assms(1,2)]
  obtain cfg e where l: "load_config_file (me_open me) (me_stdin me) (Some (config_path c)) (Some c) = (Some cfg, e)"
    using load_result by blast
  have path: "config_path c \<noteq> []" using p assms(3) by (auto simp: main_setup_def validating_def)
  have e: "e = None"
    using p assms(3) path l load_config_file_flag [of _ _ _ True c]
    by (cases e) (simp_all add: main_setup_def validating_def)
  have v: "validate_config (Some cfg) = None"
    using main_setup_validating [OF assms(1,2) path] l e assms(3) by (simp split: option.split_asm)
  have ok: "cfg_wf cfg" "\<not> validate_only cfg"
    using load_config_file_ok [OF l] parse_args_ok(1) [OF assms(1) cfg_wf_default] assms(2)
    by (simp_all add: cli_fields_def)
  obtain g' w' where "output_init (me_output me) (Some cfg) g w = (None, g', w')"
    using init_works [OF v ok(1)] assms(4-6) by blast
  with assms(1) path l e ok(2) show ?thesis by (simp add: main_setup_def)
qed

text \<open>C15: Validation is stricter than running: a command that reaches the threads exits with 3 under
  --validate-config exactly when the output is http_post and the file leaves out the URL, which then
  came from the environment, or one of the two batch settings, which have defaults; else it exits with
  0.\<close>

theorem validate_stricter:
  assumes "main_setup me g w = Inr (cfg, g', w')"
  shows "\<exists>w1. main_setup (validating me) g w =
    Inl (if output_type cfg = ''http_post'' \<and>
      (output_url cfg = [] \<or> output_batch_size cfg = 0 \<or> output_batch_interval_seconds cfg = 0) then 3 else 0, w1)"
proof -
  obtain c w2 where c: "parse_args (me_opts me) (me_args me) (Some init_default_config) = Inr c" "config_path c \<noteq> []"
    and l: "load_config_file (me_open me) (me_stdin me) (Some (config_path c)) (Some c) = (Some cfg, None)"
    and o: "\<not> validate_only cfg" "output_init (me_output me) (Some cfg) g w = (None, g', w2)"
    using assms by (rule main_setup_cases)
  have wf: "cfg_wf cfg" by (rule main_setup_facts(1) [OF assms])
  have "\<not> validate_only c" using load_config_file_ok [OF l] o(1) by (simp add: cli_fields_def)
  note v = main_setup_validating [OF c(1) this c(2) l, of g w]
  have "\<not> (output_type cfg = ''file'' \<and> output_path cfg = [])"
    using o(2) by (auto simp: output_init_def init_file_def)
  then show ?thesis unfolding v validate_wf [OF wf] by auto
qed

section \<open>The file and the command line\<close>

text \<open>A command line for the fields that only options set, and the options a file can override.\<close>

definition render_options :: "syswatch_config \<Rightarrow> (int \<times> cstring) list" where
  "render_options c =
     [(opt_code (CHR ''n''), show_int (iterations c)), (opt_code (CHR ''t''), show_int (top_n c)),
      (opt_code (CHR ''s''), case process_sort c of PROCESS_SORT_CPU \<Rightarrow> ''cpu'' | PROCESS_SORT_MEM \<Rightarrow> ''mem''),
      (2001, config_path c)] @
     (if csv_mode c then [(opt_code (CHR ''c''), [])] else []) @
     (if show_disk_details c then [(1005, [])] else []) @
     (if show_network_details c then [(1006, [])] else []) @
     (if include_loopback c then [(1004, [])] else []) @
     (if validate_only c then [(2002, [])] else [])"

definition overridable :: "int \<times> cstring \<Rightarrow> bool" where
  "overridable opt \<longleftrightarrow> fst opt \<in> {opt_code (CHR ''i''), opt_code (CHR ''p''), 1000, 1001, 1002, 1003}"

lemma overridable_cli:
  assumes "apply_option opt arg cfg = Inr cfg'" "overridable (opt, arg)"
  shows "cli_fields cfg' = cli_fields cfg"
proof -
  consider "opt = opt_code (CHR ''i'')" | "opt = opt_code (CHR ''p'')" | "opt = 1000" | "opt = 1001" | "opt = 1002"
    | "opt = 1003"
    using assms(2) unfolding overridable_def by auto
  then show ?thesis
  proof cases
    case 1
    then show ?thesis using assms(1) by (auto simp: apply_option_def opt_codes split: option.split_asm)
  qed (use assms(1) in \<open>auto simp: apply_option_def opt_codes\<close>)
qed

lemma option_loop_overridable:
  "option_loop opts cfg = Inr cfg' \<Longrightarrow> list_all overridable opts \<Longrightarrow> cli_fields cfg' = cli_fields cfg"
proof (induction opts cfg rule: option_loop.induct)
  case (2 opt optarg opts cfg)
  then obtain c where c: "apply_option opt optarg cfg = Inr c" "option_loop opts c = Inr cfg'"
    by (auto split: sum.split_asm)
  have "cli_fields c = cli_fields cfg"
    using overridable_cli [OF c(1)] 2(3) by simp
  with 2 c show ?case by simp
qed simp

text \<open>What the options write, one after the other.\<close>

lemma option_loop_render:
  assumes "cfg_wf c"
  shows "option_loop (render_options c) c0 = Inr
    (c0\<lparr>iterations := iterations c, top_n := top_n c, process_sort := process_sort c, config_path := config_path c,
       csv_mode := csv_mode c0 \<or> csv_mode c, show_disk_details := show_disk_details c0 \<or> show_disk_details c,
       show_network_details := show_network_details c0 \<or> show_network_details c,
       include_loopback := include_loopback c0 \<or> include_loopback c,
       validate_only := validate_only c0 \<or> validate_only c\<rparr>)"
proof -
  have "0 \<le> iterations c" "iterations c \<le> 1000000" "1 \<le> top_n c" "top_n c \<le> 1000" "length (config_path c) < 256"
    using assms by (simp_all add: cfg_wf_defs)
  then have "option_loop (take 4 (render_options c)) c0 = Inr
    (c0\<lparr>iterations := iterations c, top_n := top_n c, process_sort := process_sort c, config_path := config_path c\<rparr>)"
    by (cases "process_sort c")
      (simp_all add: render_options_def apply_option_simps parse_int_in_range_value parse_int_value_show_int)
  moreover have "option_loop (drop 4 (render_options c)) c1 = Inr
    (c1\<lparr>csv_mode := csv_mode c1 \<or> csv_mode c, show_disk_details := show_disk_details c1 \<or> show_disk_details c,
       show_network_details := show_network_details c1 \<or> show_network_details c,
       include_loopback := include_loopback c1 \<or> include_loopback c,
       validate_only := validate_only c1 \<or> validate_only c\<rparr>)" for c1
    by (simp add: render_options_def option_loop_append apply_option_simps)
  ultimately show ?thesis
    using option_loop_append [of "take 4 (render_options c)" "drop 4 (render_options c)" c0]
    by (simp del: take_append drop_append)
qed

text \<open>C16: Every printable configuration that does not ask for validation and whose path is neither
  empty nor - is reached from a command line and a file: the options for the fields that only options
  set, and the file that renders the rest, start the threads with exactly that configuration when
  output_init succeeds. Further options among -i, -p and --no-... in front have no effect, because
  the file is loaded after the command line has been parsed, provided that they parse and leave some
  category enabled (all four --no-... without -p make parse_args refuse the command).\<close>

theorem startup_roundtrip:
  assumes "cfg_printable c" "config_path c \<notin> {[], ''-''}" "\<not> validate_only c"
    "list_all overridable extra" "option_loop extra init_default_config = Inr c1" "some_category c1"
    "me_opts me = extra @ render_options c" "me_args me = []"
    "me_open me (config_path c) = Some (concat (render_lines c))"
    "output_init (me_output me) (Some c) g w = (None, g', w')"
  shows "main_setup me g w = Inr (c, g', eprint (mode_report (output_get_mode g')) w')"
proof -
  have wf: "cfg_wf c" using assms(1) by (simp add: cfg_printable_def)
  have c1: "cli_fields c1 = cli_fields init_default_config"
    by (rule option_loop_overridable [OF assms(5,4)])
  obtain c2 where c2: "option_loop (me_opts me) init_default_config = Inr c2" "cli_fields c2 = cli_fields c"
    "some_category c2"
    using assms(5,6,7) c1 option_loop_append option_loop_render [OF wf, of c1]
    by (auto simp: cli_fields_def init_default_config_def zero_config_def some_category_def)
  have p: "config_path c2 = config_path c" "\<not> validate_only c2"
    using c2(2) assms(3) by (simp_all add: cli_fields_def)
  have args: "parse_args (me_opts me) (me_args me) (Some init_default_config) = Inr c2"
    using c2(1,3) p assms(8) by (auto simp: parse_args_def some_category_def)
  have "load_config_file (me_open me) (me_stdin me) (Some (config_path c2)) (Some c2) = (Some c, None)"
    using assms(2,9) p(1) buffer_render_lines [OF assms(1)] load_render_lines [OF assms(1) c2(2)]
    by (simp add: load_config_file_def fgets_lines_concat)
  then show ?thesis using args p assms(2,3,10) by (simp add: main_setup_def)
qed

section \<open>Examples\<close>

definition demo_main :: main_env where
  "demo_main =
     \<lparr>me_prog = ''syswatch'', me_opts = [(opt_code (CHR ''i''), ''7''), (2001, ''c.yaml'')], me_args = [],
      me_open = (\<lambda>p. if p = ''c.yaml'' then Some demo_good else None), me_stdin = [], me_output = demo_env,
      me_malloc = True, me_strdup = True\<rparr>"

definition demo_parsed :: syswatch_config where
  "demo_parsed = init_default_config\<lparr>interval_sec := 7, config_path := ''c.yaml''\<rparr>"

lemma demo_parse:
  "parse_args (me_opts demo_main) (me_args demo_main) (Some init_default_config) = Inr demo_parsed"
  by code_simp

theorem parse_args_wf_witness:
  "cfg_wf demo_parsed \<and> some_category demo_parsed \<and> file_fields demo_parsed = file_fields init_default_config"
  by (rule parse_args_wf [OF demo_parse cfg_wf_default])

lemma demo_exit:
  "\<exists>w'. main_setup (validating demo_main) zero_output demo_world = Inl (3, w') \<and>
     w_stderr w' = ''config validation failed: config error: output.path required for file output'' @ [LF]"
proof -
  have "validate_config (Some (demo_loaded\<lparr>config_path := ''c.yaml''\<rparr>)) = Some OutputPathRequired"
    by code_simp
  moreover have "load_config_file (me_open demo_main) (me_stdin demo_main) (Some (config_path demo_parsed)) (Some demo_parsed) =
      (Some (demo_loaded\<lparr>config_path := ''c.yaml''\<rparr>), None)"
    by code_simp
  moreover have "shown ''error'' (set_error (me_malloc demo_main) (me_strdup demo_main) OutputPathRequired) =
      ''config error: output.path required for file output''"
    by (simp add: demo_main_def set_error_def strdup_def shown_def Let_def)
  ultimately show ?thesis
    using main_setup_validating [OF demo_parse, of _ zero_output demo_world]
    by (simp add: demo_parsed_def init_default_config_def zero_config_def demo_world_def)
qed

theorem main_setup_exit_witness:
  "\<exists>w'. main_setup (validating demo_main) zero_output demo_world = Inl (3, w') \<and> w_stdout w' = [] \<and> w_posts w' = []"
proof -
  obtain w' where w': "main_setup (validating demo_main) zero_output demo_world = Inl (3, w')"
    using demo_exit by blast
  from main_setup_exit [OF this] w' show ?thesis by (simp add: demo_world_def)
qed

text \<open>Standard output, and a URL without batch settings.\<close>

definition demo_stdout :: main_env where
  "demo_stdout = demo_main\<lparr>me_open := (\<lambda>p. Some (''poll_interval_seconds: 5'' @ [LF]))\<rparr>"

definition demo_http :: main_env where
  "demo_http = demo_main\<lparr>me_open := (\<lambda>p. Some (''output:'' @ [LF] @ ''  type: http_post'' @ [LF] @
     ''  url: http://h'' @ [LF]))\<rparr>"

lemma demo_started:
  "\<exists>cfg g' w'. main_setup demo_stdout zero_output demo_world = Inr (cfg, g', w') \<and> output_type cfg = ''stdout'' \<and>
     iterations cfg = 0"
  "\<exists>cfg g' w'. main_setup demo_http zero_output demo_world = Inr (cfg, g', w') \<and> output_type cfg = ''http_post'' \<and>
     output_batch_size cfg = 0"
  "\<exists>w1. main_setup (validating demo_stdout) zero_output demo_world = Inl (0, w1)"
proof -
  have "(case main_setup demo_stdout zero_output demo_world of Inl _ \<Rightarrow> False
      | Inr (cfg, _) \<Rightarrow> output_type cfg = ''stdout'' \<and> iterations cfg = 0)" by code_simp
  then show "\<exists>cfg g' w'. main_setup demo_stdout zero_output demo_world = Inr (cfg, g', w') \<and>
      output_type cfg = ''stdout'' \<and> iterations cfg = 0" by (auto split: sum.split_asm)
  have "(case main_setup demo_http zero_output demo_world of Inl _ \<Rightarrow> False
      | Inr (cfg, _) \<Rightarrow> output_type cfg = ''http_post'' \<and> output_batch_size cfg = 0)" by code_simp
  then show "\<exists>cfg g' w'. main_setup demo_http zero_output demo_world = Inr (cfg, g', w') \<and>
      output_type cfg = ''http_post'' \<and> output_batch_size cfg = 0" by (auto split: sum.split_asm)
  have "(case main_setup (validating demo_stdout) zero_output demo_world of Inl (c, _) \<Rightarrow> c = 0 | Inr _ \<Rightarrow> False)"
    by code_simp
  then show "\<exists>w1. main_setup (validating demo_stdout) zero_output demo_world = Inl (0, w1)"
    by (auto split: sum.split_asm)
qed

theorem main_setup_ready_witness:
  "\<exists>cfg g' w'. main_setup demo_http zero_output demo_world = Inr (cfg, g', w') \<and> cfg_wf cfg \<and> batch_ok g'"
proof -
  obtain cfg g' w' where r: "main_setup demo_http zero_output demo_world = Inr (cfg, g', w')" "output_type cfg = ''http_post''"
    using demo_started(2) by blast
  from main_setup_ready [OF r(1)] r show ?thesis by auto
qed

theorem validate_sound_witness:
  "\<exists>cfg g' w'. main_setup demo_stdout zero_output demo_world = Inr (cfg, g', w')"
proof -
  obtain w1 where v: "main_setup (validating demo_stdout) zero_output demo_world = Inl (0, w1)"
    using demo_started(3) by blast
  have "parse_args (me_opts demo_stdout) (me_args demo_stdout) (Some init_default_config) = Inr demo_parsed"
    using demo_parse by (simp add: demo_stdout_def)
  from validate_sound [OF this _ v] show ?thesis
    by (simp add: demo_parsed_def init_default_config_def zero_config_def demo_stdout_def demo_main_def demo_env_def)
qed

theorem validate_stricter_witness:
  "\<exists>w1. main_setup (validating demo_http) zero_output demo_world = Inl (3, w1)"
proof -
  obtain cfg g' w' where r: "main_setup demo_http zero_output demo_world = Inr (cfg, g', w')" "output_type cfg = ''http_post''"
    "output_batch_size cfg = 0" using demo_started(2) by blast
  from validate_stricter [OF r(1)] r show ?thesis by simp
qed

definition demo_target :: syswatch_config where
  "demo_target = demo_printable\<lparr>config_path := ''c.yaml'', iterations := 4\<rparr>"

definition demo_overridden :: main_env where
  "demo_overridden = demo_main
     \<lparr>me_opts := [(opt_code (CHR ''i''), ''7''), (1000, [])] @ render_options demo_target,
      me_open := (\<lambda>p. Some (concat (render_lines demo_target)))\<rparr>"

theorem startup_roundtrip_witness:
  "\<exists>g' w'. main_setup demo_overridden zero_output demo_world = Inr (demo_target, g', w') \<and> show_cpu demo_target \<and>
     interval_sec demo_target = 1"
proof -
  let ?c1 = "init_default_config\<lparr>interval_sec := 7, show_cpu := False\<rparr>"
  have p: "cfg_printable demo_target" "config_path demo_target = ''c.yaml''" "\<not> validate_only demo_target"
    "show_cpu demo_target" "interval_sec demo_target = 1" "some_category ?c1"
    by code_simp+
  have l: "option_loop [(opt_code (CHR ''i''), ''7''), (1000, [])] init_default_config = Inr ?c1"
    "list_all overridable [(opt_code (CHR ''i''), ''7''), (1000, [])]"
    by (code_simp, simp add: overridable_def)
  obtain g' w' where o: "output_init (me_output demo_overridden) (Some demo_target) zero_output demo_world = (None, g', w')"
    by (simp add: output_init_def demo_target_def demo_printable_def init_default_config_def zero_config_def)
  have "main_setup demo_overridden zero_output demo_world =
      Inr (demo_target, g', eprint (mode_report (output_get_mode g')) w')"
    by (rule startup_roundtrip [OF p(1) _ p(3) l(2,1) p(6) _ _ _ o]) (simp_all add: demo_overridden_def demo_main_def p(2))
  with p show ?thesis by blast
qed

end
