(* ===== verification/Json_Escape.thy ===== *)
theory Json_Escape
  imports C_Lib
begin

text \<open>
  \<^verbatim>\<open>json_escape_string\<close> of \<^verbatim>\<open>src/output.c\<close>, on the bytes of its output buffer, with a
  decoder of JSON string contents to state what it means.
\<close>

section \<open>Model\<close>

definition hex_digit :: "nat \<Rightarrow> char" where
  "hex_digit d = (if d < 10 then char_of (48 + d) else char_of (87 + d))"

text \<open>The \<^verbatim>\<open>switch\<close>: the replacement of a character, if it has one.\<close>

definition replacement :: "char \<Rightarrow> cstring option" where
  "replacement c =
     (if c = DQUOTE then Some [BSLASH, DQUOTE]
      else if c = BSLASH then Some [BSLASH, BSLASH]
      else if char_code c = 8 then Some [BSLASH, CHR ''b'']
      else if char_code c = 12 then Some [BSLASH, CHR ''f'']
      else if c = LF then Some [BSLASH, CHR ''n'']
      else if c = CR then Some [BSLASH, CHR ''r'']
      else if c = TAB then Some [BSLASH, CHR ''t'']
      else if char_code c < 0x20 then
        Some (BSLASH # ''u00'' @ [hex_digit (char_code c div 16), hex_digit (char_code c mod 16)])
      else None)"

fun escape_loop :: "nat \<Rightarrow> cstring \<Rightarrow> cstring \<Rightarrow> cstring" where
  "escape_loop output_size out [] = out"
| "escape_loop output_size out (c # s) =
     (if length out + 1 < output_size then
        (case replacement c of
           Some r \<Rightarrow>
             if length out + length r \<ge> output_size then out
             else escape_loop output_size (out @ r) s
         | None \<Rightarrow> escape_loop output_size (out @ [c]) s)
      else out)"

text \<open>The buffer before and after; \<open>None\<close> is a NULL pointer.\<close>

definition json_escape_string :: "cstring option \<Rightarrow> char list option \<Rightarrow> nat \<Rightarrow> char list option" where
  "json_escape_string input output output_size =
     (case output of
        None \<Rightarrow> None
      | Some buf \<Rightarrow>
          if output_size = 0 then Some buf
          else let buf = store_str [] buf
               in case input of
                    None \<Rightarrow> Some buf
                  | Some s \<Rightarrow> Some (store_str (escape_loop output_size [] s) buf))"

section \<open>Specification\<close>

definition esc_char :: "char \<Rightarrow> cstring" where
  "esc_char c = (case replacement c of Some r \<Rightarrow> r | None \<Rightarrow> [c])"

definition escape :: "cstring \<Rightarrow> cstring" where
  "escape s = concat (map esc_char s)"

text \<open>Decoding the contents of a JSON string: \<open>None\<close> where RFC 8259 allows no string, or for a
  code point above one byte.\<close>

definition hex_val :: "char \<Rightarrow> nat option" where
  "hex_val c =
     (if isdigit c then Some (char_code c - 48)
      else if 97 \<le> char_code c \<and> char_code c \<le> 102 then Some (char_code c - 87)
      else if 65 \<le> char_code c \<and> char_code c \<le> 70 then Some (char_code c - 55)
      else None)"

definition simple_escape :: "char \<Rightarrow> char option" where
  "simple_escape c =
     (if c = DQUOTE \<or> c = BSLASH \<or> c = CHR ''/'' then Some c
      else if c = CHR ''b'' then Some (char_of (8 :: nat))
      else if c = CHR ''f'' then Some (char_of (12 :: nat))
      else if c = CHR ''n'' then Some LF
      else if c = CHR ''r'' then Some CR
      else if c = CHR ''t'' then Some TAB
      else None)"

fun json_decode :: "cstring \<Rightarrow> cstring option" where
  "json_decode [] = Some []"
| "json_decode (c # s) =
     (if c = DQUOTE \<or> char_code c < 0x20 then None
      else if c = BSLASH then
        (case s of
           [] \<Rightarrow> None
         | e # t \<Rightarrow>
             if e = CHR ''u'' then
               (case t of
                  a # b # d # h # r \<Rightarrow>
                    (case (hex_val a, hex_val b, hex_val d, hex_val h) of
                       (Some 0, Some 0, Some v, Some w) \<Rightarrow>
                         map_option (Cons (char_of (16 * v + w))) (json_decode r)
                     | _ \<Rightarrow> None)
                | _ \<Rightarrow> None)
             else
               (case simple_escape e of
                  None \<Rightarrow> None
                | Some x \<Rightarrow> map_option (Cons x) (json_decode t)))
      else map_option (Cons c) (json_decode s))"

section \<open>Lemmas\<close>

lemma escape_simps [simp]:
  "escape [] = []" "escape (c # s) = esc_char c @ escape s" "escape (s @ t) = escape s @ escape t"
  by (simp_all add: escape_def)

lemma esc_char_length: "1 \<le> length (esc_char c) \<and> length (esc_char c) \<le> 6"
  by (simp add: esc_char_def replacement_def)

lemma length_escape: "length s \<le> length (escape s) \<and> length (escape s) \<le> 6 * length s"
proof (induction s)
  case (Cons c s)
  with esc_char_length [of c] show ?case by simp
qed simp

lemma escape_loop_step:
  "escape_loop n out (c # s) =
     (if length out + length (esc_char c) < n then escape_loop n (out @ esc_char c) s else out)"
proof (cases "replacement c")
  case (Some r)
  then have "1 \<le> length r" using esc_char_length [of c] by (simp add: esc_char_def)
  with Some show ?thesis by (auto simp: esc_char_def)
qed (simp add: esc_char_def)

declare escape_loop.simps(2) [simp del]

lemma escape_loop_spec:
  assumes "length out < n"
  shows "\<exists>k \<le> length s. escape_loop n out s = out @ escape (take k s) \<and>
    length (escape_loop n out s) < n \<and>
    (k < length s \<longrightarrow> n \<le> length out + length (escape (take (Suc k) s)))"
  using assms
proof (induction s arbitrary: out)
  case (Cons c s)
  show ?case
  proof (cases "length out + length (esc_char c) < n")
    case True
    then have "length (out @ esc_char c) < n" by simp
    from Cons.IH [OF this] obtain k where k: "k \<le> length s"
      "escape_loop n (out @ esc_char c) s = (out @ esc_char c) @ escape (take k s)"
      "length (escape_loop n (out @ esc_char c) s) < n"
      "k < length s \<longrightarrow> n \<le> length (out @ esc_char c) + length (escape (take (Suc k) s))" by blast
    with True show ?thesis by (intro exI [of _ "Suc k"]) (simp add: escape_loop_step add.assoc)
  next
    case False
    with Cons.prems show ?thesis by (intro exI [of _ 0]) (simp add: escape_loop_step)
  qed
qed simp

lemma escape_loop_fits: "length (out @ escape s) < n \<Longrightarrow> escape_loop n out s = out @ escape s"
  by (induction s arbitrary: out) (simp_all add: escape_loop_step)

text \<open>Decoding undoes one escape.\<close>

lemma char_code_digits:
  "d < 10 \<Longrightarrow> char_code (char_of (48 + d)) = 48 + d"
  "d < 16 \<Longrightarrow> char_code (char_of (87 + d)) = 87 + d"
  by (simp_all add: char_code_def)

lemma hex_val_digit: "d < 16 \<Longrightarrow> hex_val (hex_digit d) = Some d"
  by (cases "d < 10") (simp_all add: hex_digit_def hex_val_def isdigit_def char_code_digits)

lemma char_of_code [simp]: "char_of (char_code c) = c"
  by (simp add: char_code_def)

lemma char_code_consts [simp]:
  "char_code DQUOTE = 34" "char_code BSLASH = 92" "char_code LF = 10" "char_code CR = 13"
  "char_code TAB = 9" "char_code NUL = 0" "char_code SPC = 32"
  by (simp_all add: char_code_def)

lemma char_code_eq: "c = d \<longleftrightarrow> char_code c = char_code d"
  by (metis char_of_code)

lemma decode_esc_char: "json_decode (esc_char c @ s) = map_option (Cons c) (json_decode s)"
proof (cases "replacement c")
  case None
  then have "\<not> char_code c < 32" "c \<noteq> DQUOTE" "c \<noteq> BSLASH"
    by (auto simp: replacement_def split: if_splits)
  with None show ?thesis by (simp add: esc_char_def)
next
  case (Some r)
  have "char_code c = 8 \<Longrightarrow> c = char_of (8 :: nat)" "char_code c = 12 \<Longrightarrow> c = char_of (12 :: nat)"
    by (metis char_of_code)+
  moreover have "hex_val (CHR ''0'') = Some 0" by (simp add: hex_val_def isdigit_def char_code_def)
  moreover have "char_code c < 32 \<Longrightarrow> char_code c div 16 < 16" by simp
  moreover have "char_of (char_code c div 16 * 16 + char_code c mod 16) = c"
    by (simp only: div_mult_mod_eq char_of_code)
  ultimately show ?thesis
    using Some
    by (auto simp: esc_char_def replacement_def simple_escape_def hex_val_digit mult.commute
        split: if_splits)
qed

lemma decode_escape [simp]: "json_decode (escape s) = Some s"
  by (induction s) (simp_all add: decode_esc_char)

lemma no_nul_escape [simp]: "no_nul (escape s)"
proof (induction s)
  case (Cons c s)
  have "no_nul (replicate 1 (hex_digit d))" if "d < 16" for d
    using hex_val_digit [OF that] by (auto simp: hex_val_def)
  then have "d < 16 \<Longrightarrow> hex_digit d \<noteq> NUL" for d by simp
  then have "no_nul (esc_char c)"
    by (cases "c = NUL") (auto simp: esc_char_def replacement_def)
  with Cons show ?case by simp
qed simp

text \<open>Nothing that could end the string or break it: no control character, and every quote has
  a backslash in front.\<close>

lemma escape_printable: "c \<in> set (escape s) \<Longrightarrow> 32 \<le> char_code c"
proof (induction s)
  case (Cons a s)
  have "32 \<le> char_code (hex_digit d)" if "d < 16" for d
    using that by (cases "d < 10") (simp_all add: hex_digit_def char_code_digits)
  moreover have "char_code (CHR ''b'') = 98" "char_code (CHR ''f'') = 102" "char_code (CHR ''n'') = 110"
    "char_code (CHR ''r'') = 114" "char_code (CHR ''t'') = 116" "char_code (CHR ''u'') = 117"
    "char_code (CHR ''0'') = 48"
    by (simp_all add: char_code_def)
  ultimately have "c \<in> set (esc_char a) \<Longrightarrow> 32 \<le> char_code c"
    by (auto simp: esc_char_def replacement_def split: if_splits)
  with Cons show ?case by auto
qed simp

lemma length_store_str: "length s < length buf \<Longrightarrow> length (store_str s buf) = length buf"
  by (simp add: store_str_def)

lemma drop_store_str: "length s < n \<Longrightarrow> drop n (store_str s buf) = drop n buf"
  by (simp add: store_str_def drop_Cons')

lemma cstr_store_str [simp]: "no_nul s \<Longrightarrow> cstr (store_str s buf) = s"
  by (simp add: store_str_def cstr_terminated)

lemma json_escape_string_Some:
  "0 < n \<Longrightarrow> json_escape_string (Some s) (Some buf) n =
     Some (store_str (escape_loop n [] s) (store_str [] buf))"
  by (simp add: json_escape_string_def)

text \<open>What a caller reads from its buffer.\<close>

lemma escape_result:
  assumes "0 < n"
  shows "\<exists>k \<le> length s. cstr (the (json_escape_string (Some s) (Some buf) n)) = escape (take k s) \<and>
    length (escape (take k s)) < n \<and> (k < length s \<longrightarrow> n \<le> length (escape (take (Suc k) s)))"
proof -
  have "length ([] :: cstring) < n" using assms(1) by simp
  from escape_loop_spec [OF this, of s] obtain k where "k \<le> length s"
    "escape_loop n [] s = [] @ escape (take k s)" "length (escape_loop n [] s) < n"
    "k < length s \<longrightarrow> n \<le> length ([] :: cstring) + length (escape (take (Suc k) s))" by blast
  then show ?thesis
    using assms by (intro exI [of _ k]) (simp add: json_escape_string_Some)
qed

section \<open>Properties\<close>

text \<open>C26: Escaping into a buffer of a given size never writes outside it and leaves the escape of
  the longest prefix of the input that fits, always cut between two input characters, so that a
  JSON parser reads that prefix back.\<close>

theorem json_escape_spec:
  assumes "0 < n" "n \<le> length buf" "no_nul s"
  shows "\<exists>buf' k. json_escape_string (Some s) (Some buf) n = Some buf' \<and>
    length buf' = length buf \<and> drop n buf' = drop n buf \<and>
    k \<le> length s \<and> cstr buf' = escape (take k s) \<and> json_decode (cstr buf') = Some (take k s) \<and>
    (k < length s \<longrightarrow> n \<le> length (escape (take (Suc k) s)))"
proof -
  let ?out = "escape_loop n [] s"
  have "length ([] :: cstring) < n" using assms(1) by simp
  from escape_loop_spec [OF this, of s] obtain k where k: "k \<le> length s"
    "?out = [] @ escape (take k s)" "length ?out < n"
    "k < length s \<longrightarrow> n \<le> length ([] :: cstring) + length (escape (take (Suc k) s))" by blast
  let ?buf = "store_str [] buf"
  have b: "length ?buf = length buf" "drop n ?buf = drop n buf"
    using assms by (auto intro!: length_store_str drop_store_str)
  have "no_nul ?out" using assms(3) k(2) by (simp add: no_nul_take)
  then have "cstr (store_str ?out ?buf) = escape (take k s)" using k(2) by simp
  moreover have "length (store_str ?out ?buf) = length buf" "drop n (store_str ?out ?buf) = drop n buf"
    using k(3) assms(2) b by (simp_all add: length_store_str drop_store_str)
  ultimately show ?thesis using k assms(1) by (auto simp: json_escape_string_Some)
qed

theorem json_escape_spec_witness:
  "\<exists>buf' k. json_escape_string (Some [DQUOTE, CHR ''a'', LF]) (Some (replicate 6 NUL)) 5 = Some buf' \<and>
    length buf' = length (replicate 6 NUL) \<and> drop 5 buf' = drop 5 (replicate 6 NUL) \<and>
    k \<le> length [DQUOTE, CHR ''a'', LF] \<and> cstr buf' = escape (take k [DQUOTE, CHR ''a'', LF]) \<and>
    json_decode (cstr buf') = Some (take k [DQUOTE, CHR ''a'', LF]) \<and>
    (k < length [DQUOTE, CHR ''a'', LF] \<longrightarrow> 5 \<le> length (escape (take (Suc k) [DQUOTE, CHR ''a'', LF])))"
  by (rule json_escape_spec) simp_all

text \<open>C25: With six bytes of room for each input character and one for the terminator the whole
  input is escaped, and decoding the result as a JSON string gives the input back.\<close>

theorem json_escape_roundtrip:
  assumes "6 * length s < n" "n \<le> length buf" "no_nul s"
  shows "map_option (\<lambda>b. json_decode (cstr b)) (json_escape_string (Some s) (Some buf) n) = Some (Some s)"
proof -
  have "length ([] @ escape s) < n" using length_escape [of s] assms(1) by simp
  from escape_loop_fits [OF this] show ?thesis
    using assms by (simp add: json_escape_string_Some)
qed

theorem json_escape_roundtrip_witness:
  "map_option (\<lambda>b. json_decode (cstr b))
     (json_escape_string (Some [TAB, BSLASH, CHR 0x01]) (Some (replicate 20 NUL)) 19) =
   Some (Some [TAB, BSLASH, CHR 0x01])"
  by (rule json_escape_roundtrip) simp_all

end
