(* ===== verification/Json_Spec.thy ===== *)
theory Json_Spec
  imports Json_Escape C_Double
begin

text \<open>
  Well-formed JSON text (RFC 8259, without white space and without the three literals, which no
  event uses), as a grammar: the specification against which the event texts of
  \<^verbatim>\<open>src/main.c\<close> and the request bodies of \<^verbatim>\<open>src/output.c\<close> are checked. Not a model of
  code.
\<close>

section \<open>Grammar\<close>

definition digits :: "cstring \<Rightarrow> bool" where
  "digits s \<longleftrightarrow> s \<noteq> [] \<and> list_all isdigit s"

definition json_int :: "cstring \<Rightarrow> bool" where
  "json_int s \<longleftrightarrow> digits s \<and> (hd s = CHR ''0'' \<longrightarrow> s = ''0'')"

definition json_number :: "cstring \<Rightarrow> bool" where
  "json_number s \<longleftrightarrow>
     (\<exists>sign i frac. s = sign @ i @ frac \<and> (sign = [] \<or> sign = ''-'') \<and> json_int i \<and>
        (frac = [] \<or> (\<exists>ds. frac = CHR ''.'' # ds \<and> digits ds)))"

definition json_text :: "cstring \<Rightarrow> bool" where
  "json_text s \<longleftrightarrow> json_decode s \<noteq> None"

definition quoted_text :: "cstring \<Rightarrow> cstring" where
  "quoted_text s = DQUOTE # s @ [DQUOTE]"

definition member :: "cstring \<Rightarrow> cstring \<Rightarrow> cstring" where
  "member k v = quoted_text k @ '':'' @ v"

inductive json_value :: "cstring \<Rightarrow> bool"
  and json_members :: "cstring \<Rightarrow> bool"
  and json_elements :: "cstring \<Rightarrow> bool" where
  text_value: "json_text s \<Longrightarrow> json_value (quoted_text s)"
| number_value: "json_number s \<Longrightarrow> json_value s"
| empty_object: "json_value ''{}''"
| object: "json_members m \<Longrightarrow> json_value (''{'' @ m @ ''}'')"
| empty_array: "json_value ''[]''"
| array: "json_elements e \<Longrightarrow> json_value (''['' @ e @ '']'')"
| last_member: "json_text k \<Longrightarrow> json_value v \<Longrightarrow> json_members (member k v)"
| more_members: "json_text k \<Longrightarrow> json_value v \<Longrightarrow> json_members m \<Longrightarrow> json_members (member k v @ '','' @ m)"
| last_element: "json_value v \<Longrightarrow> json_elements v"
| more_elements: "json_value v \<Longrightarrow> json_elements e \<Longrightarrow> json_elements (v @ '','' @ e)"

lemmas json_intros = json_value_json_members_json_elements.intros

section \<open>Texts\<close>

lemma json_text_escape [simp]: "json_text (escape s)"
  by (simp add: json_text_def)

text \<open>Characters that stand for themselves in a string.\<close>

definition plain_json :: "char \<Rightarrow> bool" where
  "plain_json c \<longleftrightarrow> c \<noteq> DQUOTE \<and> c \<noteq> BSLASH \<and> 32 \<le> char_code c"

lemma json_decode_plain: "list_all plain_json s \<Longrightarrow> json_decode s = Some s"
  by (induction s) (simp_all add: plain_json_def)

lemma json_text_plain: "list_all plain_json s \<Longrightarrow> json_text s"
  by (simp add: json_text_def json_decode_plain)

section \<open>Numbers\<close>

lemma show_nat_no_zero: "0 < n \<Longrightarrow> hd (show_nat n) \<noteq> CHR ''0''"
proof (induction n rule: show_nat.induct)
  case (1 n)
  have z: "digit_char d \<noteq> CHR ''0''" if "0 < d" "d < 10" for d
  proof -
    have "char_code (CHR ''0'') = 48" by (simp add: char_code_def)
    with char_code_digit_char [OF that(2)] that(1) show ?thesis by auto
  qed
  show ?case
  proof (cases "n < 10")
    case True
    with "1.prems" z show ?thesis by (subst show_nat.simps) simp
  next
    case False
    with 1 have "hd (show_nat (n div 10)) \<noteq> CHR ''0''" by simp
    with False show ?thesis by (subst show_nat.simps) simp
  qed
qed

lemma digits_show_nat: "digits (show_nat n)"
  using isdigit_show_nat by (simp add: digits_def list_all_iff)

lemma json_int_show_nat: "json_int (show_nat n)"
proof (cases "n = 0")
  case True
  moreover have "show_nat 0 = ''0''" by code_simp
  ultimately have "show_nat n = ''0''" by simp
  then show ?thesis using digits_show_nat [of n] by (simp add: json_int_def)
next
  case False
  then show ?thesis using digits_show_nat show_nat_no_zero by (simp add: json_int_def)
qed

lemma json_number_show_nat: "json_number (show_nat n)"
  unfolding json_number_def using json_int_show_nat
  by (intro exI [of _ "[]"] exI [of _ "show_nat n"]) simp

lemma json_number_fmt: "json_number (fmt_fixed k x)"
proof -
  let ?r = "nat (round_even (\<bar>x\<bar> * 10 ^ k))"
  let ?frac = "if k = 0 then [] else ''.'' @ pad_left k (CHR ''0'') (show_nat (?r mod 10 ^ k))"
  have "isdigit (CHR ''0'')" by (simp add: isdigit_def char_code_def)
  then have "digits (pad_left k (CHR ''0'') (show_nat (?r mod 10 ^ k)))"
    using isdigit_show_nat by (auto simp: digits_def pad_left_def list_all_iff)
  then show ?thesis
    unfolding json_number_def fmt_fixed_def Let_def using json_int_show_nat
    by (intro exI [of _ "if x < 0 then ''-'' else []"] exI [of _ "show_nat (?r div 10 ^ k)"] exI [of _ ?frac]) auto
qed

lemma json_values [simp]:
  "json_value (show_nat n)" "json_value (fmt_fixed k x)"
  by (intro number_value json_number_show_nat json_number_fmt)+

section \<open>Lengths\<close>

lemma length_fmt_fixed:
  assumes "0 \<le> x" "x \<le> of_nat b" "b < 10 ^ n" "0 < n"
  shows "length (fmt_fixed k x) \<le> n + (if k = 0 then 0 else Suc k)"
proof -
  let ?r = "nat (round_even (\<bar>x\<bar> * 10 ^ k))"
  have "\<bar>x\<bar> * 10 ^ k \<le> of_int (int (b * 10 ^ k))"
    using assms(1,2) by (simp add: mult_right_mono)
  then have "round_even (\<bar>x\<bar> * 10 ^ k) \<le> int (b * 10 ^ k)" by (rule round_even_le_of_int)
  then have "?r \<le> b * 10 ^ k" by linarith
  then have "?r div 10 ^ k \<le> b" by (metis div_le_mono nonzero_mult_div_cancel_right power_not_zero zero_neq_numeral)
  then have "length (show_nat (?r div 10 ^ k)) \<le> n" using assms(3,4) by (intro length_show_nat) auto
  moreover have "length (pad_left k (CHR ''0'') (show_nat (?r mod 10 ^ k))) \<le> k" if "0 < k"
    using length_show_nat [of "?r mod 10 ^ k" k] that by (simp add: pad_left_def)
  ultimately show ?thesis using assms(1) by (auto simp: fmt_fixed_def Let_def)
qed

section \<open>No terminators\<close>

lemma decode_no_nul: "json_decode s \<noteq> None \<Longrightarrow> no_nul s"
proof (induction s rule: json_decode.induct)
  case (2 c s)
  have hex: "hex_val NUL = None" and esc: "simple_escape NUL = None" and u: "CHR ''u'' \<noteq> NUL"
    by code_simp+
  from 2 have c: "c \<noteq> NUL" by (auto simp: char_code_def)
  show ?case
  proof (cases "c = BSLASH")
    case False
    with 2 c show ?thesis by (auto simp: no_nul_def split: if_splits)
  next
    case True
    with "2.prems" obtain e t where s: "s = e # t" by (auto split: list.splits if_splits)
    show ?thesis
    proof (cases "e = CHR ''u''")
      case u': True
      with "2.prems" True s obtain a b d h r v w where t: "t = a # b # d # h # r"
        "hex_val a = Some 0" "hex_val b = Some 0" "hex_val d = Some v" "hex_val h = Some w" "json_decode r \<noteq> None"
        by (auto split: list.splits if_splits option.splits nat.splits)
      with 2 show ?thesis using True s u u' hex c by (auto simp: no_nul_def)
    next
      case False
      with "2.prems" True s have d: "json_decode t \<noteq> None" "simple_escape e \<noteq> None"
        by (auto split: option.splits if_splits)
      have "no_nul t" using "2.IH"(2) [OF _ True s False] c d "2.prems" by (auto split: if_splits)
      moreover have "e \<noteq> NUL" using d(2) esc by auto
      ultimately show ?thesis using s c by (simp add: no_nul_def)
    qed
  qed
qed simp

lemma digits_no_nul: "digits s \<Longrightarrow> no_nul s"
proof -
  have "\<not> isdigit NUL" by code_simp
  then show "digits s \<Longrightarrow> no_nul s" by (auto simp: digits_def no_nul_def list_all_iff)
qed

lemma number_no_nul: "json_number s \<Longrightarrow> no_nul s"
  using digits_no_nul by (auto simp: json_number_def json_int_def no_nul_def)

lemma json_no_nul:
  "json_value v \<Longrightarrow> no_nul v" "json_members m \<Longrightarrow> no_nul m" "json_elements e \<Longrightarrow> no_nul e"
proof (induction rule: json_value_json_members_json_elements.inducts)
  case (number_value s)
  then show ?case by (rule number_no_nul)
next
  case (text_value s)
  then show ?case using decode_no_nul by (simp add: json_text_def quoted_text_def no_nul_def)
next
  case (last_member k v)
  then show ?case using decode_no_nul [of k]
    by (simp add: json_text_def quoted_text_def member_def no_nul_def)
next
  case (more_members k v m)
  then show ?case using decode_no_nul [of k]
    by (simp add: json_text_def quoted_text_def member_def no_nul_def)
qed (simp_all add: no_nul_def)

end
