(* ===== verification/Cpu.thy ===== *)
theory Cpu
  imports Utils
begin

text \<open>
  The CPU collector of \<^verbatim>\<open>src/cpu.c\<close>: reading \<^verbatim>\<open>/proc/stat\<close> and the percentages between
  two snapshots.

  The array \<^verbatim>\<open>cores\<close> with its counter \<^verbatim>\<open>core_count\<close> is the list of its entries in use.
  The contents of \<^verbatim>\<open>/proc/stat\<close>, when it can be opened, are an argument, and so is the
  indeterminate value of the local \<^verbatim>\<open>parsed\<close>, whose fields \<^verbatim>\<open>sscanf\<close> leaves unset on a
  short line: \<open>junk k i\<close> is its field \<open>i\<close> at line \<open>k\<close>.
\<close>

section \<open>State\<close>

definition MAX_CORES :: nat where "MAX_CORES = 256"

record cpu_times =
  ct_user :: u64
  ct_nice :: u64
  ct_system :: u64
  ct_idle :: u64
  ct_iowait :: u64
  ct_irq :: u64
  ct_softirq :: u64
  ct_steal :: u64

record cpu_snapshot =
  cs_total :: cpu_times
  cs_cores :: "cpu_times list"

record cpu_stats =
  usage_pct :: double
  user_pct :: double
  system_pct :: double
  idle_pct :: double
  core_usage_pct :: "double list"

definition zero_times :: cpu_times where
  "zero_times = \<lparr>ct_user = 0, ct_nice = 0, ct_system = 0, ct_idle = 0, ct_iowait = 0, ct_irq = 0,
     ct_softirq = 0, ct_steal = 0\<rparr>"

definition zero_cpu_stats :: cpu_stats where
  "zero_cpu_stats = \<lparr>usage_pct = 0, user_pct = 0, system_pct = 0, idle_pct = 0, core_usage_pct = []\<rparr>"

section \<open>Percentages\<close>

definition cpu_total_jiffies :: "cpu_times \<Rightarrow> u64" where
  "cpu_total_jiffies t =
     ct_user t + ct_nice t + ct_system t + ct_idle t + ct_iowait t + ct_irq t + ct_softirq t + ct_steal t"

definition cpu_pct_from_delta :: "cpu_times \<Rightarrow> cpu_times \<Rightarrow> cpu_stats \<Rightarrow> cpu_stats" where
  "cpu_pct_from_delta prev cur out =
     (let total_delta = monus (cpu_total_jiffies cur) (cpu_total_jiffies prev);
          idle_delta = monus (ct_idle cur) (ct_idle prev);
          user_delta = monus (ct_user cur) (ct_user prev);
          sys_delta = monus (ct_system cur) (ct_system prev)
      in if total_delta = 0 then
           out\<lparr>usage_pct := 0, user_pct := 0, system_pct := 0, idle_pct := 100\<rparr>
         else
           let idle = d_mul 100 (d_div (d_of_u64 idle_delta) (d_of_u64 total_delta));
               usage = d_sub 100 idle;
               user = d_mul 100 (d_div (d_of_u64 user_delta) (d_of_u64 total_delta));
               sys = d_mul 100 (d_div (d_of_u64 sys_delta) (d_of_u64 total_delta))
           in out\<lparr>usage_pct := clamp_double usage 0 100, user_pct := clamp_double user 0 100,
                  system_pct := clamp_double sys 0 100, idle_pct := clamp_double idle 0 100\<rparr>)"

fun core_loop :: "cpu_times list \<Rightarrow> cpu_times list \<Rightarrow> nat \<Rightarrow> nat \<Rightarrow> double list" where
  "core_loop prev cur i 0 = []"
| "core_loop prev cur i (Suc n) =
     usage_pct (cpu_pct_from_delta (prev ! i) (cur ! i) zero_cpu_stats) # core_loop prev cur (Suc i) n"

definition cpu_compute_stats :: "cpu_snapshot option \<Rightarrow> cpu_snapshot option \<Rightarrow> cpu_stats option" where
  "cpu_compute_stats prevp curp =
     (case (prevp, curp) of
        (Some prev, Some cur) \<Rightarrow>
          let out = cpu_pct_from_delta (cs_total prev) (cs_total cur) zero_cpu_stats;
              core_count = (if length (cs_cores prev) < length (cs_cores cur)
                            then length (cs_cores prev) else length (cs_cores cur))
          in Some (out\<lparr>core_usage_pct := core_loop (cs_cores prev) (cs_cores cur) 0 core_count\<rparr>)
      | _ \<Rightarrow> None)"

section \<open>Reading the counters\<close>

text \<open>\<^verbatim>\<open>parsed\<close> after \<^verbatim>\<open>sscanf\<close> has assigned the values \<open>vs\<close> to its first fields.\<close>

definition parsed_times :: "(nat \<Rightarrow> u64) \<Rightarrow> u64 list \<Rightarrow> cpu_times" where
  "parsed_times junk vs =
     (let f = (\<lambda>i. if i < length vs then vs ! i else junk i)
      in \<lparr>ct_user = f 0, ct_nice = f 1, ct_system = f 2, ct_idle = f 3, ct_iowait = f 4, ct_irq = f 5,
          ct_softirq = f 6, ct_steal = f 7\<rparr>)"

definition scan_total :: "cstring \<Rightarrow> u64 list" where
  "scan_total line = (case scan_lit ''cpu'' line of None \<Rightarrow> [] | Some s \<Rightarrow> scan_llus 8 s)"

definition scan_core :: "cstring \<Rightarrow> u64 list" where
  "scan_core line =
     (case scan_lit ''cpu'' line of
        None \<Rightarrow> []
      | Some s \<Rightarrow> (case scan_d s of None \<Rightarrow> [] | Some s \<Rightarrow> scan_llus 8 s))"

fun cpu_lines :: "(nat \<Rightarrow> nat \<Rightarrow> u64) \<Rightarrow> nat \<Rightarrow> cstring list \<Rightarrow> cpu_snapshot \<Rightarrow> cpu_snapshot" where
  "cpu_lines junk k [] out = out"
| "cpu_lines junk k (line # ls) out =
     (if take 4 line = ''cpu '' then
        let vs = scan_total line
        in cpu_lines junk (Suc k) ls
             (if length vs \<ge> 4 then out\<lparr>cs_total := parsed_times (junk k) vs\<rparr> else out)
      else if take 3 line = ''cpu'' \<and> length line > 3 \<and> isdigit (line ! 3) \<and> length (cs_cores out) < MAX_CORES then
        let vs = scan_core line
        in cpu_lines junk (Suc k) ls
             (if length vs \<ge> 4 then out\<lparr>cs_cores := cs_cores out @ [parsed_times (junk k) vs]\<rparr> else out)
      else if take 4 line = ''intr'' then out
      else cpu_lines junk (Suc k) ls out)"

definition zero_snapshot :: cpu_snapshot where
  "zero_snapshot = \<lparr>cs_total = zero_times, cs_cores = []\<rparr>"

text \<open>The return code and \<^verbatim>\<open>*out\<close> afterwards, if the pointer is not NULL.\<close>

definition cpu_read_snapshot ::
  "(nat \<Rightarrow> nat \<Rightarrow> u64) \<Rightarrow> char list option \<Rightarrow> cpu_snapshot option \<Rightarrow> rc \<times> cpu_snapshot option" where
  "cpu_read_snapshot junk proc_stat outp =
     (case outp of
        None \<Rightarrow> (-1, None)
      | Some _ \<Rightarrow>
          (case proc_stat of
             None \<Rightarrow> (-1, Some zero_snapshot)
           | Some content \<Rightarrow> (0, Some (cpu_lines junk 0 (fgets_lines 512 content) zero_snapshot))))"

section \<open>Lemmas on the percentages\<close>

definition pct_ok :: "double \<Rightarrow> bool" where
  "pct_ok p \<longleftrightarrow> 0 \<le> p \<and> p \<le> 100"

lemma cpu_pct_ok:
  "pct_ok (usage_pct (cpu_pct_from_delta prev cur out))" "pct_ok (user_pct (cpu_pct_from_delta prev cur out))"
  "pct_ok (system_pct (cpu_pct_from_delta prev cur out))" "pct_ok (idle_pct (cpu_pct_from_delta prev cur out))"
  by (simp_all add: cpu_pct_from_delta_def Let_def pct_ok_def clamp_bounds)

lemma core_loop_map:
  "core_loop prev cur i n =
     map (\<lambda>j. usage_pct (cpu_pct_from_delta (prev ! j) (cur ! j) zero_cpu_stats)) [i..<i + n]"
proof (induction n arbitrary: i)
  case (Suc n)
  have "[i..<i + Suc n] = i # [Suc i..<Suc i + n]" by (simp add: upt_conv_Cons del: upt_Suc)
  with Suc show ?case by simp
qed simp

lemma pct_of_part:
  assumes "part \<le> whole" "whole \<noteq> 0"
  shows "pct_ok (d_mul 100 (d_div (d_of_u64 part) (d_of_u64 whole)))"
proof -
  have p: "0 \<le> d_of_u64 part" "d_of_u64 part \<le> d_of_u64 whole" "0 < d_of_u64 whole"
    using assms by (simp_all add: d_of_u64_mono)
  then have "0 \<le> d_of_u64 part / d_of_u64 whole" "d_of_u64 part / d_of_u64 whole \<le> 1" by simp_all
  then have q: "0 \<le> d_div (d_of_u64 part) (d_of_u64 whole)" "d_div (d_of_u64 part) (d_of_u64 whole) \<le> 1"
    using rnd_mono [of "d_of_u64 part / d_of_u64 whole" 1] by (simp_all add: d_div_def)
  then have "100 * d_div (d_of_u64 part) (d_of_u64 whole) \<le> 100" by simp
  from rnd_mono [OF this] q show ?thesis by (simp add: pct_ok_def d_mul_def)
qed

text \<open>Without wrap-around the sum of the counters is the sum of their values.\<close>

definition jiffies :: "cpu_times \<Rightarrow> nat" where
  "jiffies t =
     unat (ct_user t) + unat (ct_nice t) + unat (ct_system t) + unat (ct_idle t) +
     unat (ct_iowait t) + unat (ct_irq t) + unat (ct_softirq t) + unat (ct_steal t)"

definition times_le :: "cpu_times \<Rightarrow> cpu_times \<Rightarrow> bool" where
  "times_le s t \<longleftrightarrow>
     ct_user s \<le> ct_user t \<and> ct_nice s \<le> ct_nice t \<and> ct_system s \<le> ct_system t \<and>
     ct_idle s \<le> ct_idle t \<and> ct_iowait s \<le> ct_iowait t \<and> ct_irq s \<le> ct_irq t \<and>
     ct_softirq s \<le> ct_softirq t \<and> ct_steal s \<le> ct_steal t"

lemma total_jiffies_exact:
  assumes "jiffies t < 2 ^ 64"
  shows "unat (cpu_total_jiffies t) = jiffies t"
proof -
  have "cpu_total_jiffies t = of_nat (jiffies t)"
    by (simp add: cpu_total_jiffies_def jiffies_def)
  then show ?thesis using assms by (simp add: unat_of_nat)
qed

lemma total_delta_exact:
  assumes "jiffies prev < 2 ^ 64" "jiffies cur < 2 ^ 64"
  shows "unat (monus (cpu_total_jiffies cur) (cpu_total_jiffies prev)) = jiffies cur - jiffies prev"
  using assms by (simp add: unat_monus total_jiffies_exact)

lemma part_delta_le:
  assumes "times_le prev cur" "jiffies prev < 2 ^ 64" "jiffies cur < 2 ^ 64"
    "f \<in> {ct_user, ct_system, ct_idle}"
  shows "monus (f cur) (f prev) \<le> monus (cpu_total_jiffies cur) (cpu_total_jiffies prev)"
  using assms total_delta_exact [OF assms(2,3)]
  by (auto simp: word_le_nat_alt unat_monus times_le_def jiffies_def)

section \<open>Lemmas on the parser\<close>

definition times_row :: "cpu_times \<Rightarrow> u64 list" where
  "times_row t = [ct_user t, ct_nice t, ct_system t, ct_idle t, ct_iowait t, ct_irq t, ct_softirq t, ct_steal t]"

text \<open>The lines of \<^verbatim>\<open>/proc/stat\<close>: eight counters, then the two guest counters the code ignores.\<close>

definition total_line :: "cpu_times \<Rightarrow> u64 list \<Rightarrow> cstring" where
  "total_line t guest = (''cpu'' @ SPC # number_row (times_row t @ guest)) @ [LF]"

definition core_line :: "nat \<Rightarrow> cpu_times \<Rightarrow> u64 list \<Rightarrow> cstring" where
  "core_line i t guest = (''cpu'' @ show_nat i @ number_row (times_row t @ guest)) @ [LF]"

lemma parsed_times_row [simp]: "parsed_times junk (times_row t) = t"
  by (simp add: parsed_times_def times_row_def)

lemma num_end_newline [simp]: "num_end (number_row vs @ [LF])"
  by (rule num_end_row) (simp add: isdigit_def char_code_def)

lemma times_row_length: "length (times_row t) = 8"
  by (simp add: times_row_def)

lemma scan_row_guest: "scan_llus 8 (number_row (times_row t @ guest) @ [LF]) = times_row t"
proof -
  have "scan_llus (length (times_row t)) (number_row (times_row t) @ number_row guest @ [LF]) = times_row t"
    by (rule scan_llus_row) simp
  then show ?thesis unfolding times_row_length by simp
qed

lemma scan_llus_skip: "scan_llus n (SPC # s) = scan_llus n s"
  by (cases n) (simp_all add: scan_llu_def strtoull_def)

lemma scan_total_line: "scan_total (total_line t guest) = times_row t"
  using scan_row_guest [of t guest]
  by (simp add: scan_total_def total_line_def scan_llus_skip del: number_row_simps(3))

lemma scan_core_line: "scan_core (core_line i t guest) = times_row t"
proof -
  let ?row = "number_row (times_row t @ guest) @ [LF]"
  have "scan_d (show_nat i @ ?row) = Some ?row" by (intro scan_d_show_nat num_end_newline)
  then show ?thesis
    using scan_row_guest [of t guest] by (simp add: scan_core_def core_line_def del: number_row_simps)
qed

lemma cpu_lines_total: "cpu_lines junk k (total_line t guest # ls) out = cpu_lines junk (Suc k) ls (out\<lparr>cs_total := t\<rparr>)"
proof -
  have "take 4 (total_line t guest) = ''cpu ''" by (simp add: total_line_def)
  with times_row_length [of t] show ?thesis by (simp add: scan_total_line)
qed

lemma cpu_lines_core:
  "cpu_lines junk k (core_line i t guest # ls) out =
     cpu_lines junk (Suc k) ls
       (if length (cs_cores out) < MAX_CORES then out\<lparr>cs_cores := cs_cores out @ [t]\<rparr> else out)"
proof -
  obtain c cs where c: "show_nat i = c # cs" "isdigit c" using show_nat_hd by blast
  then have "c \<noteq> SPC" by auto
  with c have "take 4 (core_line i t guest) \<noteq> ''cpu ''" "take 4 (core_line i t guest) \<noteq> ''intr''"
    "take 3 (core_line i t guest) = ''cpu''" "length (core_line i t guest) > 3"
    "isdigit (core_line i t guest ! 3)"
    by (simp_all add: core_line_def)
  with times_row_length [of t] show ?thesis by (simp add: scan_core_line)
qed

lemma cpu_lines_intr: "take 4 line = ''intr'' \<Longrightarrow> cpu_lines junk k (line # ls) out = out"
proof -
  assume t: "take 4 line = ''intr''"
  then have "take 3 (take 4 line) = ''int''" by simp
  then have "take 3 line = ''int''" by (simp add: min_def)
  with t show ?thesis by simp
qed

text \<open>The core lines of cores \<open>i\<close>, \<open>i + 1\<close>, and so on.\<close>

fun core_lines :: "nat \<Rightarrow> (cpu_times \<times> u64 list) list \<Rightarrow> cstring list" where
  "core_lines i [] = []"
| "core_lines i ((t, guest) # ts) = core_line i t guest # core_lines (Suc i) ts"

lemma cpu_lines_cores:
  "cpu_lines junk k (core_lines i ts @ ls) out =
     cpu_lines junk (k + length ts) ls
       (out\<lparr>cs_cores := cs_cores out @ take (MAX_CORES - length (cs_cores out)) (map fst ts)\<rparr>)"
proof (induction ts arbitrary: i k out)
  case Nil
  then show ?case by simp
next
  case (Cons tg ts)
  obtain t guest where tg: "tg = (t, guest)" by fastforce
  show ?case
  proof (cases "length (cs_cores out) < MAX_CORES")
    case True
    then have "MAX_CORES - length (cs_cores out) = Suc (MAX_CORES - Suc (length (cs_cores out)))" by simp
    with True show ?thesis by (simp add: tg cpu_lines_core Cons.IH del: cpu_lines.simps)
  qed (simp add: tg cpu_lines_core Cons.IH del: cpu_lines.simps)
qed

lemma cpu_cores_bounded:
  "length (cs_cores out) \<le> MAX_CORES \<Longrightarrow> length (cs_cores (cpu_lines junk k ls out)) \<le> MAX_CORES"
  by (induction junk k ls out rule: cpu_lines.induct) (auto simp: Let_def)

lemma text_line_row: "length vs \<le> 20 \<Longrightarrow> length p < 80 \<Longrightarrow> LF \<notin> set p \<Longrightarrow> no_nul p \<Longrightarrow>
  text_line 512 ((p @ number_row vs) @ [LF])"
  using number_row_line [of vs] by (intro text_line_intro [OF _ _ _ refl]) auto

lemma text_line_core:
  assumes "\<forall>(t, g) \<in> set ts. length g \<le> 12" "i + length ts < 10 ^ 20"
  shows "list_all (text_line 512) (core_lines i ts)"
  using assms
proof (induction i ts rule: core_lines.induct)
  case (2 i t guest ts)
  have "length (show_nat i) \<le> 20" using "2.prems"(2) by (intro length_show_nat) auto
  then have "text_line 512 (((''cpu'' @ show_nat i) @ number_row (times_row t @ guest)) @ [LF])"
    using "2.prems"(1) times_row_length [of t] by (intro text_line_row) (auto simp: show_nat_chars)
  then have "text_line 512 (core_line i t guest)" by (simp add: core_line_def)
  with 2 show ?case by simp
qed simp

lemma text_line_total: "length guest \<le> 12 \<Longrightarrow> text_line 512 (total_line t guest)"
  using text_line_row [of "times_row t @ guest" "''cpu'' @ [SPC]"] times_row_length [of t]
  by (simp add: total_line_def del: number_row_simps)

section \<open>Properties\<close>

text \<open>C30: The statistics of any two snapshots exist, every percentage lies between 0 and 100, and
  there is one per core that both snapshots have.\<close>

theorem cpu_stats_ranges:
  "\<exists>out. cpu_compute_stats (Some prev) (Some cur) = Some out \<and>
    pct_ok (usage_pct out) \<and> pct_ok (user_pct out) \<and> pct_ok (system_pct out) \<and> pct_ok (idle_pct out) \<and>
    length (core_usage_pct out) = min (length (cs_cores prev)) (length (cs_cores cur)) \<and>
    list_all pct_ok (core_usage_pct out)"
  by (auto simp: cpu_compute_stats_def core_loop_map cpu_pct_ok list_all_iff Let_def)

text \<open>C31: When no counter went back and the sum of the newer counters fits 64 bits, the statistics
  are these. If the total did not advance: usage, user and system 0, idle 100. Otherwise user,
  system and idle are 100 times the quotient of the counter's delta and the total delta, where
  each of the four steps (both deltas to doubles, the division, the multiplication) rounds once
  to the nearest double; the usage is 100 minus that idle percentage, rounded. Clamping to 0..100
  changes nothing then.\<close>

theorem cpu_pct_exact:
  assumes "times_le prev cur" "jiffies cur < 2 ^ 64"
  defines "part \<equiv> (\<lambda>f. rnd (100 * rnd (rnd (of_nat (unat (f cur) - unat (f prev))) /
                                          rnd (of_nat (jiffies cur - jiffies prev)))))"
  shows "cpu_pct_from_delta prev cur out =
    (if jiffies prev = jiffies cur
     then out\<lparr>usage_pct := 0, user_pct := 0, system_pct := 0, idle_pct := 100\<rparr>
     else out\<lparr>usage_pct := rnd (100 - part ct_idle), user_pct := part ct_user,
            system_pct := part ct_system, idle_pct := part ct_idle\<rparr>)"
proof -
  let ?d = "monus (cpu_total_jiffies cur) (cpu_total_jiffies prev)"
  have le: "jiffies prev \<le> jiffies cur" using assms(1) by (simp add: jiffies_def times_le_def word_le_nat_alt)
  then have prev: "jiffies prev < 2 ^ 64" using assms(2) by simp
  have d: "unat ?d = jiffies cur - jiffies prev" using total_delta_exact [OF prev assms(2)] .
  have part: "part f = d_mul 100 (d_div (d_of_u64 (monus (f cur) (f prev))) (d_of_u64 ?d))" for f
    unfolding part_def d_mul_def d_div_def d_of_u64_def d by (simp only: unat_monus)
  show ?thesis
  proof (cases "jiffies prev = jiffies cur")
    case True
    then have "unat ?d = 0" using d by simp
    then have "?d = 0" by (simp only: unat_eq_zero)
    with True show ?thesis by (simp add: cpu_pct_from_delta_def)
  next
    case False
    with d le have "?d \<noteq> 0" by auto
    have ok: "pct_ok (part f)" if "f \<in> {ct_user, ct_system, ct_idle}" for f
      unfolding part using part_delta_le [OF assms(1) prev assms(2) that] \<open>?d \<noteq> 0\<close> by (rule pct_of_part)
    have "pct_ok (d_sub 100 (part ct_idle))"
      using ok [of ct_idle] rnd_mono [of "100 - part ct_idle" 100] by (simp add: pct_ok_def d_sub_def)
    then show ?thesis
      using False ok \<open>?d \<noteq> 0\<close> by (simp add: cpu_pct_from_delta_def Let_def part pct_ok_def d_sub_def)
  qed
qed

text \<open>C32: Reading a \<^verbatim>\<open>/proc/stat\<close> with eight counters or more per line yields exactly its total
  and the first 256 of its cores, whatever follows the interrupt line and whatever the
  uninitialised local holds.\<close>

theorem cpu_read_exact:
  assumes "length guest \<le> 12" "\<forall>(t, g) \<in> set ts. length g \<le> 12" "length ts < 10 ^ 20"
  shows "cpu_read_snapshot junk
      (Some (total_line tot guest @ concat (core_lines 0 ts) @ ''intr '' @ rest)) (Some old) =
    (0, Some \<lparr>cs_total = tot, cs_cores = take 256 (map fst ts)\<rparr>)"
proof -
  let ?ls = "total_line tot guest # core_lines 0 ts"
  obtain l more where intr: "fgets_lines 512 (''intr '' @ rest) = (''intr '' @ l) # more"
    using fgets_lines_prefix [of "''intr ''" 512 rest] by auto
  have "list_all (text_line 512) ?ls"
    using text_line_total [OF assms(1)] text_line_core [OF assms(2), of 0] assms(3) by simp
  from fgets_lines_append [OF this, of "''intr '' @ rest"] have
    "fgets_lines 512 (total_line tot guest @ concat (core_lines 0 ts) @ ''intr '' @ rest) =
       ?ls @ (''intr '' @ l) # more"
    unfolding intr by simp
  then show ?thesis
    by (simp add: cpu_read_snapshot_def cpu_lines_total cpu_lines_cores cpu_lines_intr
        zero_snapshot_def MAX_CORES_def del: cpu_lines.simps)
qed

definition demo_times :: "u64 \<Rightarrow> cpu_times" where
  "demo_times k = \<lparr>ct_user = 10 * k, ct_nice = 0, ct_system = 5 * k, ct_idle = 80 * k, ct_iowait = 0,
     ct_irq = k, ct_softirq = 2 * k, ct_steal = 0\<rparr>"

theorem cpu_read_exact_witness:
  "cpu_read_snapshot (\<lambda>_ _. 7)
      (Some (total_line (demo_times 2) [] @ concat (core_lines 0 [(demo_times 1, [3, 4]), (demo_times 1, [])]) @
        ''intr '' @ ''99'')) (Some zero_snapshot) =
    (0, Some \<lparr>cs_total = demo_times 2,
              cs_cores = take 256 (map fst [(demo_times 1, [3, 4 :: u64]), (demo_times 1, [])])\<rparr>)"
  by (rule cpu_read_exact) simp_all

text \<open>Of 196 jiffies 20 were spent in user mode, 10 in the system and 160 idle.\<close>

theorem cpu_pct_exact_witness:
  "cpu_pct_from_delta (demo_times 1) (demo_times 3) zero_cpu_stats =
     zero_cpu_stats\<lparr>usage_pct := rnd (100 - rnd (100 * rnd (160 / 196))), user_pct := rnd (100 * rnd (20 / 196)),
       system_pct := rnd (100 * rnd (10 / 196)), idle_pct := rnd (100 * rnd (160 / 196))\<rparr> \<and>
   cpu_pct_from_delta (demo_times 3) (demo_times 3) zero_cpu_stats = zero_cpu_stats\<lparr>idle_pct := 100\<rparr>"
proof -
  have le: "times_le (demo_times 1) (demo_times 3)" "times_le (demo_times 3) (demo_times 3)"
    and j: "jiffies (demo_times 1) = 98" "jiffies (demo_times 3) = 294"
    by (simp_all add: times_le_def jiffies_def demo_times_def)
  then have lt: "jiffies (demo_times 3) < 2 ^ 64" by simp
  from cpu_pct_exact [OF le(1) lt, of zero_cpu_stats] cpu_pct_exact [OF le(2) lt, of zero_cpu_stats]
  show ?thesis by (simp add: j) (simp add: demo_times_def zero_cpu_stats_def)
qed

end
