(* ===== verification/Memory.thy ===== *)
theory Memory
  imports C_Lib
begin

text \<open>
  The memory collector of \<^verbatim>\<open>src/memory.c\<close>: the lines of \<^verbatim>\<open>/proc/meminfo\<close>, kept in bytes,
  and the derived amounts in use. The file's contents are an argument, \<open>None\<close> when it cannot be
  opened.
\<close>

record memory_stats =
  mem_total :: u64
  mem_available :: u64
  mem_free :: u64
  buffers :: u64
  cached :: u64
  swap_total :: u64
  swap_free :: u64
  mem_used :: u64
  swap_used :: u64

definition zero_memory :: memory_stats where
  "zero_memory = \<lparr>mem_total = 0, mem_available = 0, mem_free = 0, buffers = 0, cached = 0,
     swap_total = 0, swap_free = 0, mem_used = 0, swap_used = 0\<rparr>"

text \<open>\<^verbatim>\<open>sscanf(line, "%63[^:]: %llu kB", key, &value_kb) == 2\<close>\<close>

definition scan_meminfo :: "cstring \<Rightarrow> (cstring \<times> u64) option" where
  "scan_meminfo line =
     (let key = takeWhile (\<lambda>c. c \<noteq> CHR '':'') (take 63 line)
      in if key = [] then None
         else (case scan_lit '':'' (drop (length key) line) of
                 None \<Rightarrow> None
               | Some s \<Rightarrow> map_option (\<lambda>(v, _). (key, v)) (scan_llu s)))"

definition store_meminfo :: "cstring \<Rightarrow> u64 \<Rightarrow> memory_stats \<Rightarrow> memory_stats" where
  "store_meminfo key value_kb out =
     (if key = ''MemTotal'' then out\<lparr>mem_total := value_kb * 1024\<rparr>
      else if key = ''MemAvailable'' then out\<lparr>mem_available := value_kb * 1024\<rparr>
      else if key = ''MemFree'' then out\<lparr>mem_free := value_kb * 1024\<rparr>
      else if key = ''Buffers'' then out\<lparr>buffers := value_kb * 1024\<rparr>
      else if key = ''Cached'' then out\<lparr>cached := value_kb * 1024\<rparr>
      else if key = ''SwapTotal'' then out\<lparr>swap_total := value_kb * 1024\<rparr>
      else if key = ''SwapFree'' then out\<lparr>swap_free := value_kb * 1024\<rparr>
      else out)"

fun meminfo_lines :: "cstring list \<Rightarrow> memory_stats \<Rightarrow> memory_stats" where
  "meminfo_lines [] out = out"
| "meminfo_lines (line # ls) out =
     (case scan_meminfo line of
        None \<Rightarrow> meminfo_lines ls out
      | Some (key, value_kb) \<Rightarrow> meminfo_lines ls (store_meminfo key value_kb out))"

definition memory_used :: "memory_stats \<Rightarrow> memory_stats" where
  "memory_used out =
     (let out = (if mem_total out \<ge> mem_available out
                 then out\<lparr>mem_used := mem_total out - mem_available out\<rparr> else out)
      in if swap_total out \<ge> swap_free out
         then out\<lparr>swap_used := swap_total out - swap_free out\<rparr> else out)"

definition memory_read_stats :: "char list option \<Rightarrow> memory_stats option \<Rightarrow> rc \<times> memory_stats option" where
  "memory_read_stats proc_meminfo outp =
     (case outp of
        None \<Rightarrow> (-1, None)
      | Some _ \<Rightarrow>
          (case proc_meminfo of
             None \<Rightarrow> (-1, Some zero_memory)
           | Some content \<Rightarrow>
               (0, Some (memory_used (meminfo_lines (fgets_lines 256 content) zero_memory)))))"

section \<open>Lemmas\<close>

text \<open>A line of the file is an entry (a key, a colon, white space, a decimal number and whatever
  follows it) or something else.\<close>

datatype meminfo_item =
    Entry (item_key: cstring) (item_space: cstring) (item_value: u64) (item_tail: cstring)
  | Junk cstring

fun item_text :: "meminfo_item \<Rightarrow> cstring" where
  "item_text (Entry key ws v tail) = key @ '':'' @ ws @ show_nat (unat v) @ tail"
| "item_text (Junk s) = s"

definition meminfo_key :: "cstring \<Rightarrow> bool" where
  "meminfo_key key \<longleftrightarrow> key \<noteq> [] \<and> length key < 64 \<and> CHR '':'' \<notin> set key"

text \<open>A line that is no entry: no colon among its first 64 characters, no key before the colon, or
  no number after it.\<close>

definition no_entry :: "cstring \<Rightarrow> bool" where
  "no_entry s \<longleftrightarrow> CHR '':'' \<notin> set (take 64 s) \<or> take 1 s = '':'' \<or>
     (case dropWhile isspace (tl (dropWhile (\<lambda>c. c \<noteq> CHR '':'') s)) of
        [] \<Rightarrow> True
      | c # _ \<Rightarrow> \<not> isdigit c \<and> c \<noteq> CHR ''+'' \<and> c \<noteq> CHR ''-'')"

fun item_ok :: "meminfo_item \<Rightarrow> bool" where
  "item_ok (Entry key ws v tail) \<longleftrightarrow> meminfo_key key \<and> list_all isspace ws \<and> num_end tail"
| "item_ok (Junk s) \<longleftrightarrow> no_entry s"

fun item_entry :: "meminfo_item \<Rightarrow> (cstring \<times> u64) option" where
  "item_entry (Entry key ws v tail) = Some (key, v)"
| "item_entry (Junk s) = None"

lemma scan_key:
  assumes "CHR '':'' \<notin> set key" "length key < 64"
  shows "takeWhile (\<lambda>c. c \<noteq> CHR '':'') (take 63 (key @ CHR '':'' # rest)) = key"
proof (cases "length key = 63")
  case True
  then have "take 63 (key @ CHR '':'' # rest) = key" by simp
  with assms show ?thesis by (auto simp: takeWhile_all)
next
  case False
  then have "take 63 (key @ CHR '':'' # rest) = key @ CHR '':'' # take (62 - length key) rest"
    using assms by (simp add: take_Cons')
  moreover have "takeWhile (\<lambda>c. c \<noteq> CHR '':'') (key @ CHR '':'' # take (62 - length key) rest) = key"
    using assms by (intro takeWhile_stop) auto
  ultimately show ?thesis by simp
qed

lemma scan_meminfo_colon:
  assumes "CHR '':'' \<notin> set key" "length key < 64"
  shows "scan_meminfo (key @ CHR '':'' # rest) =
    (if key = [] then None else map_option (\<lambda>(v, _). (key, v)) (scan_llu rest))"
  using scan_key [OF assms, of rest] by (simp add: scan_meminfo_def)

lemma scan_llu_none: "num_end t \<Longrightarrow> take_sign t = (False, t) \<Longrightarrow> dropWhile isspace s = t \<Longrightarrow> scan_llu s = None"
  by (simp add: scan_llu_def strtoull_def)

lemma scan_meminfo_no_colon: "CHR '':'' \<notin> set (take 64 l) \<Longrightarrow> scan_meminfo l = None"
proof -
  assume no: "CHR '':'' \<notin> set (take 64 l)"
  have "take 64 l = take 63 l @ take 1 (drop 63 l)" using take_add [of 63 1 l] by simp
  with no have "CHR '':'' \<notin> set (take 63 l)" and hd: "CHR '':'' \<notin> set (take 1 (drop 63 l))" by simp_all
  then have key: "takeWhile (\<lambda>c. c \<noteq> CHR '':'') (take 63 l) = take 63 l" by (auto intro!: takeWhile_all)
  have "drop (length (take 63 l)) l = drop 63 l" by (simp add: min_def)
  moreover have "scan_lit '':'' (drop 63 l) = None" using hd by (cases "drop 63 l") auto
  ultimately show ?thesis unfolding scan_meminfo_def Let_def key by simp
qed

lemma scan_meminfo_junk:
  assumes "no_entry s"
  shows "scan_meminfo (s @ [LF]) = None"
proof (cases "CHR '':'' \<in> set (take 64 s)")
  case False
  then have "CHR '':'' \<notin> set (take 64 (s @ [LF]))" by (auto dest: in_set_takeD)
  then show ?thesis by (rule scan_meminfo_no_colon)
next
  case True
  let ?key = "takeWhile (\<lambda>c. c \<noteq> CHR '':'') s" and ?t = "tl (dropWhile (\<lambda>c. c \<noteq> CHR '':'') s)"
  have "CHR '':'' \<in> set s" using True by (meson in_set_takeD)
  then have "dropWhile (\<lambda>c. c \<noteq> CHR '':'') s = CHR '':'' # ?t"
    by (induction s) auto
  then have s: "s = ?key @ CHR '':'' # ?t" by (metis takeWhile_dropWhile_id)
  have colon: "CHR '':'' \<notin> set ?key" by (auto dest: set_takeWhileD)
  have "length ?key < 64"
  proof (rule ccontr)
    assume "\<not> length ?key < 64"
    then have "take 64 s = take 64 ?key" by (subst s) simp
    with True colon show False by (metis in_set_takeD)
  qed
  from scan_meminfo_colon [OF colon this, of "?t @ [LF]"]
  have eq: "scan_meminfo (s @ [LF]) =
      (if ?key = [] then None else map_option (\<lambda>(v, _). (?key, v)) (scan_llu (?t @ [LF])))"
    by (subst s) simp
  show ?thesis
  proof (cases "?key = []")
    case False
    then have "take 1 s \<noteq> '':''" using colon by (subst s) (cases ?key; auto)
    then have "case dropWhile isspace ?t of [] \<Rightarrow> True | c # _ \<Rightarrow> \<not> isdigit c \<and> c \<noteq> CHR ''+'' \<and> c \<noteq> CHR ''-''"
      using assms True by (simp add: no_entry_def)
    then have "scan_llu (?t @ [LF]) = None"
    proof (cases "dropWhile isspace ?t")
      case Nil
      then have "dropWhile isspace (?t @ [LF]) = []" by (simp add: dropWhile_append)
      then show ?thesis by (intro scan_llu_none [of "[]"]) simp_all
    next
      case (Cons c cs)
      then have "dropWhile isspace (?t @ [LF]) = c # cs @ [LF]"
        using dropWhile_eq_Nil_conv [of isspace ?t] by (auto simp: dropWhile_append)
      then show ?thesis
        using \<open>case dropWhile isspace ?t of [] \<Rightarrow> True | c # _ \<Rightarrow> _ c\<close> Cons
        by (intro scan_llu_none [of "c # cs @ [LF]"]) simp_all
    qed
    then show ?thesis by (simp add: eq)
  qed (simp add: eq)
qed

lemma scan_meminfo_item:
  assumes "item_ok i"
  shows "scan_meminfo (item_text i @ [LF]) = item_entry i"
proof (cases i)
  case (Entry key ws v tail)
  then have "\<forall>c \<in> set ws. isspace c" "num_end (tail @ [LF])"
    using assms by (auto simp: list_all_iff num_end_def split: list.splits)
  moreover have "\<not> 2 ^ 64 \<le> unat v" using unsigned_less [of v, where ?'a = nat] by simp
  ultimately have "scan_llu (ws @ show_nat (unat v) @ tail @ [LF]) = Some (v, tail @ [LF])"
    using scan_llu_show_nat [of ws "tail @ [LF]" "unat v"] by simp
  then show ?thesis
    using assms scan_meminfo_colon [of key "ws @ show_nat (unat v) @ tail @ [LF]"]
    by (simp add: Entry meminfo_key_def)
next
  case (Junk s)
  with assms scan_meminfo_junk show ?thesis by simp
qed

lemma meminfo_lines_fold:
  "list_all item_ok ms \<Longrightarrow>
     meminfo_lines (map (\<lambda>i. item_text i @ [LF]) ms) out =
       fold (\<lambda>(key, v). store_meminfo key v) (List.map_filter item_entry ms) out"
proof (induction ms arbitrary: out)
  case (Cons i ms)
  then have "scan_meminfo (item_text i @ [LF]) = item_entry i" by (intro scan_meminfo_item) simp
  with Cons show ?case by (cases "item_entry i") (auto simp: List.map_filter_def simp del: item_text.simps)
qed (simp add: List.map_filter_def)

lemma store_keeps_used: "mem_used (store_meminfo key v out) = mem_used out \<and>
  swap_used (store_meminfo key v out) = swap_used out"
  by (simp add: store_meminfo_def)

lemma lines_keep_used: "mem_used (meminfo_lines ls out) = mem_used out \<and>
  swap_used (meminfo_lines ls out) = swap_used out"
  by (induction ls arbitrary: out) (auto simp: store_keeps_used split: option.split)

section \<open>Properties\<close>

text \<open>The amounts in use never wrap around: they are the totals minus what is available or
  free, and 0 when the file claims more available or free than there is.\<close>

theorem memory_used_bounds:
  "\<exists>out. memory_read_stats (Some content) (Some old) = (0, Some out) \<and>
    unat (mem_used out) = unat (mem_total out) - unat (mem_available out) \<and>
    unat (swap_used out) = unat (swap_total out) - unat (swap_free out)"
proof -
  let ?m = "meminfo_lines (fgets_lines 256 content) zero_memory"
  have "mem_used ?m = 0 \<and> swap_used ?m = 0"
    using lines_keep_used [of "fgets_lines 256 content" zero_memory] by (simp add: zero_memory_def)
  then have "unat (mem_used (memory_used ?m)) = unat (mem_total ?m) - unat (mem_available ?m)"
    "unat (swap_used (memory_used ?m)) = unat (swap_total ?m) - unat (swap_free ?m)"
    "mem_total (memory_used ?m) = mem_total ?m" "mem_available (memory_used ?m) = mem_available ?m"
    "swap_total (memory_used ?m) = swap_total ?m" "swap_free (memory_used ?m) = swap_free ?m"
    by (simp_all add: memory_used_def Let_def word_le_nat_alt unat_sub)
  then show ?thesis by (auto simp: memory_read_stats_def)
qed

text \<open>What the entries say under a key, in bytes: the last one with that key counts, 0 without
  one.\<close>

definition last_bytes :: "(cstring \<times> u64) list \<Rightarrow> cstring \<Rightarrow> u64" where
  "last_bytes es key = (case map_of (rev es) key of None \<Rightarrow> 0 | Some v \<Rightarrow> v * 1024)"

lemma last_bytes_simps [simp]:
  "last_bytes [] key = 0"
  "last_bytes (es @ [(k, v)]) key = (if key = k then v * 1024 else last_bytes es key)"
  by (simp_all add: last_bytes_def)

definition stats_of :: "(cstring \<times> u64) list \<Rightarrow> memory_stats" where
  "stats_of es = zero_memory
     \<lparr>mem_total := last_bytes es ''MemTotal'', mem_available := last_bytes es ''MemAvailable'',
      mem_free := last_bytes es ''MemFree'', buffers := last_bytes es ''Buffers'',
      cached := last_bytes es ''Cached'', swap_total := last_bytes es ''SwapTotal'',
      swap_free := last_bytes es ''SwapFree''\<rparr>"

lemma meminfo_fold: "fold (\<lambda>(key, v). store_meminfo key v) es zero_memory = stats_of es"
proof (induction es rule: rev_induct)
  case Nil
  then show ?case by (simp add: stats_of_def zero_memory_def)
next
  case (snoc e es)
  then show ?case by (cases e) (simp add: stats_of_def store_meminfo_def)
qed

text \<open>C33: A \<^verbatim>\<open>/proc/meminfo\<close> of lines that the 256-byte buffer holds is read exactly: every
  field is the number of the last entry with its key (behind any white space, with any tail),
  times 1024 modulo 2^64. Entries with other keys are ignored, and so are lines that are no
  entry, before, between and after the entries: without a colon among the first 64 characters,
  without a key, or without a number (lines with a signed number are not covered).\<close>

theorem memory_read_exact:
  assumes "\<forall>i \<in> set ms. item_ok i \<and> text_line 256 (item_text i @ [LF])"
  shows "memory_read_stats (Some (concat (map (\<lambda>i. item_text i @ [LF]) ms))) (Some old) =
    (0, Some (memory_used (stats_of (List.map_filter item_entry ms))))"
proof -
  have "list_all (text_line 256) (map (\<lambda>i. item_text i @ [LF]) ms)" "list_all item_ok ms"
    using assms by (auto simp: list_all_iff)
  then show ?thesis
    by (simp only: memory_read_stats_def fgets_lines_concat meminfo_lines_fold meminfo_fold option.case)
qed

text \<open>A file whose first and third line are no entries.\<close>

definition demo_meminfo :: "meminfo_item list" where
  "demo_meminfo =
     [Junk ''no colon here'', Entry ''MemTotal'' ''       '' 100 '' kB'', Junk ''MemFree: unknown'',
      Entry ''HugePages_Total'' ''   '' 1 '''', Entry ''MemAvailable'' '' '' 60 '' kB'', Junk [],
      Entry ''SwapFree'' '' '' 5 '' kB'']"

theorem memory_read_exact_witness:
  "memory_read_stats (Some (concat (map (\<lambda>i. item_text i @ [LF]) demo_meminfo))) (Some zero_memory) =
    (0, Some (zero_memory\<lparr>mem_total := 102400, mem_available := 61440, swap_free := 5120, mem_used := 40960\<rparr>))"
proof -
  have "list_all item_ok demo_meminfo" by code_simp
  moreover have "list_all (\<lambda>i. LF \<notin> set (item_text i) \<and> no_nul (item_text i) \<and> length (item_text i) < 255)
      demo_meminfo" by code_simp
  ultimately have "\<forall>i \<in> set demo_meminfo. item_ok i \<and> text_line 256 (item_text i @ [LF])"
    by (auto simp: list_all_iff intro!: text_line_intro [OF _ _ _ refl])
  from memory_read_exact [OF this, of zero_memory] show ?thesis
    by (simp add: demo_meminfo_def List.map_filter_def stats_of_def last_bytes_def memory_used_def zero_memory_def)
qed

end
