(* ===== verification/Rate_Interface.thy ===== *)
theory Rate_Interface
  imports Utils
begin

text \<open>
  What the disk and the network collector share: two lists of named counters, the older and the
  newer reading, give a list of rates for the names that occur in both. Also the blank-separated
  fields of a line of \<^verbatim>\<open>/proc\<close>, with the paddings the kernel prints.
\<close>

section \<open>Lookup by name\<close>

text \<open>The loops \<^verbatim>\<open>find_disk\<close> and \<^verbatim>\<open>find_iface\<close>: the index of the first entry with a
  name, \<open>None\<close> for -1.\<close>

fun find_name :: "('c \<Rightarrow> cstring) \<Rightarrow> 'c list \<Rightarrow> cstring \<Rightarrow> nat option" where
  "find_name nm [] name = None"
| "find_name nm (c # cs) name = (if nm c = name then Some 0 else map_option Suc (find_name nm cs name))"

lemma find_name_nth: "map_option (nth cs) (find_name nm cs name) = List.find (\<lambda>c. nm c = name) cs"
  by (induction cs) (auto simp: option.map_comp comp_def)

lemma find_Some_in: "List.find P xs = Some x \<Longrightarrow> x \<in> set xs \<and> P x"
  by (induction xs) (auto split: if_splits)

lemma map_map_filter: "map f (List.map_filter g xs) = List.map_filter (\<lambda>x. map_option f (g x)) xs"
  by (induction xs) (auto simp: List.map_filter_def)

section \<open>The contract\<close>

lemma d_of_monus: "d_of_u64 (monus x y) = rnd (of_nat (unat x - unat y))"
  by (simp only: d_of_u64_def unat_monus)

text \<open>\<open>mk p c iv\<close> is the entry for the readings \<open>p\<close> and \<open>c\<close> of one device: its rates are, counter
  by counter, how much the counter grew, in the unit \<open>conv\<close> of the rate, per second. A counter that
  went back counts as one that did not grow, as the natural numbers subtract.\<close>

definition growth :: "(nat \<Rightarrow> double) \<Rightarrow> int \<Rightarrow> u64 \<Rightarrow> u64 \<Rightarrow> double" where
  "growth conv iv old new = rnd (conv (unat new - unat old) / rnd (of_int iv))"

locale delta_rates =
  fixes compute :: "'c list \<Rightarrow> 'c list \<Rightarrow> int \<Rightarrow> 'r list option"
    and nm :: "'c \<Rightarrow> cstring" and mk :: "'c \<Rightarrow> 'c \<Rightarrow> int \<Rightarrow> 'r"
    and rnm :: "'r \<Rightarrow> cstring" and rates :: "'r \<Rightarrow> double list" and bound :: nat
    and counters :: "'c \<Rightarrow> u64 list" and conv :: "nat \<Rightarrow> double"
  assumes compute_invalid: "iv \<le> 0 \<Longrightarrow> compute prev cur iv = None"
    and compute_valid: "0 < iv \<Longrightarrow> length cur \<le> bound \<Longrightarrow>
      compute prev cur iv =
        Some (List.map_filter (\<lambda>c. map_option (\<lambda>p. mk p c iv) (List.find (\<lambda>p. nm p = nm c) prev)) cur)"
    and name_kept: "rnm (mk p c iv) = copy_trunc 32 (nm c)"
    and rates_exact: "0 < iv \<Longrightarrow> rates (mk p c iv) = map2 (growth conv iv) (counters p) (counters c)"
    and conv_0: "conv 0 = 0" and conv_nonneg: "0 \<le> conv n"
begin

lemma rates_nonneg: "0 < iv \<Longrightarrow> \<forall>r \<in> set (rates (mk p c iv)). 0 \<le> r"
  using conv_nonneg by (auto simp: rates_exact growth_def intro!: rnd_nonneg divide_nonneg_nonneg)

lemma rates_idle: "0 < iv \<Longrightarrow> \<forall>r \<in> set (rates (mk c c iv)). r = 0"
  by (auto simp: rates_exact growth_def conv_0 zip_same_conv_map)

lemma entries:
  assumes "compute prev cur iv = Some rs" "length cur \<le> bound"
  shows "0 < iv \<and> length rs \<le> length cur \<and>
    (\<forall>r \<in> set rs. (\<exists>c \<in> set cur. \<exists>p \<in> set prev. nm p = nm c \<and> r = mk p c iv) \<and> (\<forall>x \<in> set (rates r). 0 \<le> x))"
proof -
  have iv: "0 < iv" using assms(1) compute_invalid [of iv prev cur] by (cases "0 < iv") auto
  then have rs: "rs = List.map_filter (\<lambda>c. map_option (\<lambda>p. mk p c iv) (List.find (\<lambda>p. nm p = nm c) prev)) cur"
    using assms compute_valid by simp
  have "length rs \<le> length cur" unfolding rs
    by (simp add: List.map_filter_def)
  moreover have "\<exists>c \<in> set cur. \<exists>p \<in> set prev. nm p = nm c \<and> r = mk p c iv" if "r \<in> set rs" for r
  proof -
    obtain c p where "c \<in> set cur" "List.find (\<lambda>p. nm p = nm c) prev = Some p" "r = mk p c iv"
      using \<open>r \<in> set rs\<close> unfolding rs by (auto simp: List.map_filter_def)
    with find_Some_in [of "\<lambda>p. nm p = nm c" prev p] show ?thesis by blast
  qed
  ultimately show ?thesis using iv rates_nonneg by blast
qed

text \<open>The whole report: the current devices the older reading has too, in the current order, each
  with its rates.\<close>

lemma report:
  assumes "length cur \<le> bound" "\<forall>c \<in> set cur. length (nm c) < 32"
  shows "map_option (map (\<lambda>r. (rnm r, rates r))) (compute prev cur iv) =
    (if iv \<le> 0 then None
     else Some (List.map_filter (\<lambda>c. map_option (\<lambda>p. (nm c, map2 (growth conv iv) (counters p) (counters c)))
       (List.find (\<lambda>p. nm p = nm c) prev)) cur))"
proof (cases "iv \<le> 0")
  case False
  then have iv: "0 < iv" by simp
  have "map (\<lambda>r. (rnm r, rates r))
        (List.map_filter (\<lambda>c. map_option (\<lambda>p. mk p c iv) (List.find (\<lambda>p. nm p = nm c) prev)) cs) =
      List.map_filter (\<lambda>c. map_option (\<lambda>p. (nm c, map2 (growth conv iv) (counters p) (counters c)))
        (List.find (\<lambda>p. nm p = nm c) prev)) cs" if "\<forall>c \<in> set cs. length (nm c) < 32" for cs
    using that iv
    by (induction cs) (auto simp: List.map_filter_def name_kept rates_exact split: option.split)
  with assms(2) show ?thesis using iv compute_valid [OF iv assms(1)] by simp
qed (simp add: compute_invalid)

lemma names:
  assumes "compute prev cur iv = Some rs" "length cur \<le> bound" "\<forall>c \<in> set cur. length (nm c) < 32"
  shows "map rnm rs = filter (\<lambda>n. n \<in> nm ` set prev) (map nm cur)"
proof -
  have "0 < iv" using entries [OF assms(1,2)] by blast
  then have rs: "rs = List.map_filter (\<lambda>c. map_option (\<lambda>p. mk p c iv) (List.find (\<lambda>p. nm p = nm c) prev)) cur"
    using assms compute_valid by simp
  have none: "List.find (\<lambda>p. nm p = n) prev = None \<longleftrightarrow> n \<notin> nm ` set prev" for n
    by (auto simp: find_None_iff)
  have "map rnm (List.map_filter (\<lambda>c. map_option (\<lambda>p. mk p c iv) (List.find (\<lambda>p. nm p = nm c) prev)) cs) =
      filter (\<lambda>n. n \<in> nm ` set prev) (map nm cs)" if "\<forall>c \<in> set cs. length (nm c) < 32" for cs
    using that
  proof (induction cs)
    case (Cons c cs)
    then show ?case
    proof (cases "List.find (\<lambda>p. nm p = nm c) prev")
      case None
      with Cons none [of "nm c"] show ?thesis by (simp add: List.map_filter_def)
    next
      case (Some p)
      then have "nm c \<in> nm ` set prev" using none [of "nm c"] by auto
      with Some Cons show ?thesis by (simp add: List.map_filter_def name_kept)
    qed
  qed (simp add: List.map_filter_def)
  with rs assms(3) show ?thesis by simp
qed

text \<open>Two readings of the same counters report every device, at rate 0.\<close>

lemma idle:
  assumes "distinct (map nm cur)" "length cur \<le> bound" "0 < iv"
  shows "\<exists>rs. compute cur cur iv = Some rs \<and> length rs = length cur \<and> (\<forall>r \<in> set rs. \<forall>x \<in> set (rates r). x = 0)"
proof -
  let ?rs = "List.map_filter (\<lambda>c. map_option (\<lambda>p. mk p c iv) (List.find (\<lambda>p. nm p = nm c) cur)) cur"
  have self: "List.find (\<lambda>p. nm p = nm c) cur = Some c" if "c \<in> set cur" for c
  proof (cases "List.find (\<lambda>p. nm p = nm c) cur")
    case None
    with that show ?thesis by (auto simp: find_None_iff)
  next
    case (Some p)
    then have "p \<in> set cur" "nm p = nm c" by (auto dest: find_Some_in)
    with that assms(1) Some show ?thesis by (auto simp: distinct_map inj_on_def)
  qed
  have "List.map_filter (\<lambda>c. map_option (\<lambda>p. mk p c iv) (List.find (\<lambda>p. nm p = nm c) cur)) cs = map (\<lambda>c. mk c c iv) cs"
    if "set cs \<subseteq> set cur" for cs
    using that self by (induction cs) (auto simp: List.map_filter_def)
  then have "?rs = map (\<lambda>c. mk c c iv) cur" by simp
  then show ?thesis using compute_valid [OF assms(3,2)] rates_idle [OF assms(3)] by simp
qed

end

section \<open>Blank-separated fields\<close>

definition is_blank :: "char \<Rightarrow> bool" where
  "is_blank c \<longleftrightarrow> c = SPC \<or> c = TAB"

text \<open>A field that \<^verbatim>\<open>trim_whitespace\<close> and \<^verbatim>\<open>strtok\<close> leave alone.\<close>

definition field_ok :: "cstring \<Rightarrow> bool" where
  "field_ok t \<longleftrightarrow> t \<noteq> [] \<and> (\<forall>c \<in> set t. \<not> isspace c)"

fun fields_line :: "cstring list \<Rightarrow> cstring" where
  "fields_line [] = []"
| "fields_line (t # ts) = SPC # t @ fields_line ts"

lemma field_ok_blank: "field_ok t \<Longrightarrow> \<forall>c \<in> set t. \<not> is_blank c"
  by (auto simp: field_ok_def is_blank_def)

lemma strtok_tokens:
  assumes "delim SPC" "\<forall>t \<in> set ts. t \<noteq> [] \<and> (\<forall>c \<in> set t. \<not> delim c)"
  shows "strtok_all delim (fields_line ts) = ts"
  using assms(2)
proof (induction ts)
  case (Cons t ts)
  have "fields_line ts = [] \<or> delim (hd (fields_line ts))"
    using assms(1) by (cases ts) simp_all
  then have "strtok_all delim ([SPC] @ t @ fields_line ts) = t # strtok_all delim (fields_line ts)"
    using Cons.prems assms(1) by (intro strtok_all_token) auto
  with Cons show ?case by simp
qed simp

section \<open>Lines of padded fields\<close>

text \<open>A line as the kernel prints it: every field with the blanks in front of it. Only the first
  field may have none.\<close>

type_synonym row = "(cstring \<times> cstring) list"

definition row_text :: "row \<Rightarrow> cstring" where
  "row_text ps = concat (map (\<lambda>(gap, t). gap @ t) ps)"

definition row_ok :: "row \<Rightarrow> bool" where
  "row_ok ps \<longleftrightarrow> list_all (\<lambda>(gap, t). list_all is_blank gap \<and> field_ok t) ps \<and>
     list_all (\<lambda>(gap, t). gap \<noteq> []) (tl ps)"

text \<open>A row that a buffer of \<open>n\<close> bytes holds as one line.\<close>

definition row_line :: "nat \<Rightarrow> row \<Rightarrow> bool" where
  "row_line n ps \<longleftrightarrow> row_ok ps \<and> no_nul (row_text ps) \<and> Suc (length (row_text ps)) < n"

lemma row_text_simps [simp]:
  "row_text [] = []" "row_text ((gap, t) # ps) = gap @ t @ row_text ps"
  by (simp_all add: row_text_def)

lemma blank_isspace: "is_blank c \<Longrightarrow> isspace c"
  by (auto simp: is_blank_def)

lemma row_ok_ConsD: "row_ok (p # ps) \<Longrightarrow> row_ok ps"
  by (cases ps) (auto simp: row_ok_def)

lemma row_text_starts: "row_ok (p # ps) \<Longrightarrow> row_text ps = [] \<or> is_blank (hd (row_text ps))"
  by (cases ps) (auto simp: row_ok_def list_all_iff)

lemma strtok_row: "row_ok ps \<Longrightarrow> strtok_all is_blank (row_text ps) = map snd ps"
proof (induction ps)
  case (Cons p ps)
  obtain gap t where p: "p = (gap, t)" by (cases p)
  have "\<forall>c \<in> set gap. is_blank c" "t \<noteq> []" "\<forall>c \<in> set t. \<not> is_blank c"
    using Cons.prems field_ok_blank [of t] by (auto simp: p row_ok_def list_all_iff field_ok_def)
  from strtok_all_token [OF this row_text_starts [OF Cons.prems]] Cons.IH [OF row_ok_ConsD [OF Cons.prems]]
  show ?case by (simp add: p)
qed simp

lemma row_text_last: "row_ok ps \<Longrightarrow> ps \<noteq> [] \<Longrightarrow> row_text ps \<noteq> [] \<and> \<not> isspace (last (row_text ps))"
proof (induction ps)
  case (Cons p ps)
  obtain gap t where p: "p = (gap, t)" by (cases p)
  then have "t \<noteq> []" "\<not> isspace (last t)" using Cons.prems by (auto simp: row_ok_def field_ok_def)
  with Cons.IH [OF row_ok_ConsD [OF Cons.prems(1)]] show ?case by (cases "ps = []") (simp_all add: p)
qed simp

text \<open>A line of fields, trimmed and split, gives its fields.\<close>

lemma trim_strtok_row:
  assumes "row_ok ps" "ps \<noteq> []"
  shows "trim_whitespace (row_text ps @ [LF]) \<noteq> [] \<and>
    strtok_all is_blank (trim_whitespace (row_text ps @ [LF])) = map snd ps"
proof -
  obtain gap t us where ps: "ps = (gap, t) # us" using assms(2) by (cases ps) auto
  let ?core = "t @ row_text us"
  have t: "t \<noteq> []" "\<not> isspace (hd t)" "\<forall>c \<in> set gap. isspace c"
    using assms(1) blank_isspace by (auto simp: ps row_ok_def list_all_iff field_ok_def)
  have "last ?core = last (row_text ps)" using t(1) by (simp add: ps)
  then have "\<not> isspace (last ?core)" using row_text_last [OF assms] by simp
  then have "trim_whitespace (row_text ps @ [LF]) = row_text (([], t) # us)"
    using trim_whitespace_core [of gap "[LF]" ?core] t by (simp add: ps)
  moreover have "row_ok (([], t) # us)" using assms(1) by (simp add: ps row_ok_def)
  ultimately show ?thesis using strtok_row [of "([], t) # us"] t(1) by (simp add: ps)
qed

lemma trim_empty_row: "trim_whitespace (row_text [] @ [LF]) = []"
  by (simp add: trim_whitespace_eq)

lemma row_text_chars: "row_ok ps \<Longrightarrow> LF \<notin> set (row_text ps)"
proof (induction ps)
  case (Cons p ps)
  obtain gap t where p: "p = (gap, t)" by (cases p)
  have "\<not> is_blank LF" "isspace LF" by (simp_all add: is_blank_def)
  then have "LF \<notin> set gap" "LF \<notin> set t"
    using Cons.prems by (auto simp: p row_ok_def list_all_iff field_ok_def)
  with Cons.IH [OF row_ok_ConsD [OF Cons.prems]] show ?case by (simp add: p)
qed simp

lemma row_text_line: "row_line n ps \<Longrightarrow> text_line n (row_text ps @ [LF])"
  using row_text_chars [of ps] by (intro text_line_intro [OF _ _ _ refl]) (auto simp: row_line_def)

lemma ten_fields:
  assumes "10 \<le> length ts"
  shows "ts = [ts ! 0, ts ! 1, ts ! 2, ts ! 3, ts ! 4, ts ! 5, ts ! 6, ts ! 7, ts ! 8, ts ! 9] @ drop 10 ts"
proof -
  have "ts = map (nth ts) [0..<10] @ drop 10 ts"
    using assms by (intro nth_equalityI) (auto simp: nth_append)
  moreover have "[0..<10] = [0, 1, 2, 3, 4, 5, 6, 7, 8, 9]" by code_simp
  ultimately show ?thesis by simp
qed

text \<open>A file of such lines is read row by row.\<close>

lemma fgets_lines_rows:
  "list_all (row_line n) rows \<Longrightarrow>
     fgets_lines n (concat (map (\<lambda>ps. row_text ps @ [LF]) rows)) = map (\<lambda>ps. row_text ps @ [LF]) rows"
  by (intro fgets_lines_concat) (auto simp: list_all_iff row_text_line)

end
