(* ===== verification/Disk.thy ===== *)
theory Disk
  imports Rate_Interface
begin

text \<open>
  The disk collector of \<^verbatim>\<open>src/disk.c\<close>: whole disks from \<^verbatim>\<open>/proc/diskstats\<close> and their
  transfer rates between two snapshots. The array \<^verbatim>\<open>items\<close> with its counter \<^verbatim>\<open>count\<close> is the
  list of its entries in use.
\<close>

section \<open>State\<close>

definition MAX_DISKS :: nat where "MAX_DISKS = 32"

record disk_counter =
  dc_name :: cstring
  sectors_read :: u64
  sectors_written :: u64

record disk_rate_entry =
  dr_name :: cstring
  read_bps :: double
  write_bps :: double

type_synonym disk_snapshot = "disk_counter list"
type_synonym disk_stats = "disk_rate_entry list"

section \<open>Names\<close>

fun is_alpha_only_suffix :: "cstring \<Rightarrow> bool" where
  "is_alpha_only_suffix [] = True"
| "is_alpha_only_suffix (c # s) = (if \<not> isalpha c then False else is_alpha_only_suffix s)"

text \<open>\<^verbatim>\<open>sscanf(name, "nvme%dn%d%c", ...) == 2\<close>: two numbers and nothing after them.\<close>

definition scan_nvme :: "cstring \<Rightarrow> bool" where
  "scan_nvme name =
     (case Option.bind (scan_lit ''nvme'' name) scan_d of
        None \<Rightarrow> False
      | Some s \<Rightarrow> Option.bind (scan_lit ''n'' s) scan_d = Some [])"

definition scan_mmcblk :: "cstring \<Rightarrow> bool" where
  "scan_mmcblk name \<longleftrightarrow> Option.bind (scan_lit ''mmcblk'' name) scan_d = Some []"

definition is_whole_disk_name :: "cstring option \<Rightarrow> bool" where
  "is_whole_disk_name namep =
     (case namep of
        None \<Rightarrow> False
      | Some name \<Rightarrow>
          if name = [] then False
          else if take 2 name = ''sd'' \<or> take 2 name = ''hd'' \<or> take 2 name = ''vd''
            then is_alpha_only_suffix (drop 2 name)
          else if take 3 name = ''xvd'' then is_alpha_only_suffix (drop 3 name)
          else if take 4 name = ''nvme'' \<and> scan_nvme name then True
          else if take 6 name = ''mmcblk'' \<and> scan_mmcblk name then True
          else False)"

section \<open>Reading the counters\<close>

text \<open>The \<^verbatim>\<open>strtok\<close> loop: the field it stops at, and the name and counters found so far.\<close>

fun disk_fields ::
  "cstring list \<Rightarrow> nat \<Rightarrow> cstring option \<times> u64 \<times> u64 \<Rightarrow> nat \<times> cstring option \<times> u64 \<times> u64" where
  "disk_fields [] field st = (field, st)"
| "disk_fields (token # ts) field (name, r, w) =
     (let field = field + 1
      in if field = 3 then disk_fields ts field (Some token, r, w)
         else if field = 6 then
           (case parse_ull token of
              None \<Rightarrow> (field, name, r, w)
            | Some v \<Rightarrow> disk_fields ts field (name, v, w))
         else if field = 10 then
           (case parse_ull token of
              None \<Rightarrow> (field, name, r, w)
            | Some v \<Rightarrow> (field, name, r, v))
         else disk_fields ts field (name, r, w))"

definition disk_line :: "cstring \<Rightarrow> disk_counter option" where
  "disk_line line =
     (let cursor = trim_whitespace line
      in if cursor = [] then None
         else
           let (field, name, r, w) = disk_fields (strtok_all is_blank cursor) 0 (None, 0, 0)
           in if field < 10 \<or> name = None \<or> \<not> is_whole_disk_name name then None
              else Some \<lparr>dc_name = copy_trunc 32 (the name), sectors_read = r, sectors_written = w\<rparr>)"

fun disk_lines :: "cstring list \<Rightarrow> disk_snapshot \<Rightarrow> disk_snapshot" where
  "disk_lines [] out = out"
| "disk_lines (line # ls) out =
     (if length out < MAX_DISKS then
        (case disk_line line of
           None \<Rightarrow> disk_lines ls out
         | Some c \<Rightarrow> disk_lines ls (out @ [c]))
      else out)"

definition disk_read_snapshot ::
  "char list option \<Rightarrow> disk_snapshot option \<Rightarrow> rc \<times> disk_snapshot option" where
  "disk_read_snapshot proc_diskstats outp =
     (case outp of
        None \<Rightarrow> (-1, None)
      | Some _ \<Rightarrow>
          (case proc_diskstats of
             None \<Rightarrow> (-1, Some [])
           | Some content \<Rightarrow> (0, Some (disk_lines (fgets_lines 512 content) []))))"

section \<open>Rates\<close>

definition find_disk :: "disk_snapshot \<Rightarrow> cstring \<Rightarrow> nat option" where
  "find_disk snap name = find_name dc_name snap name"

definition disk_rate :: "disk_counter \<Rightarrow> disk_counter \<Rightarrow> int \<Rightarrow> disk_rate_entry" where
  "disk_rate p c interval_sec =
     (let read_delta = monus (sectors_read c) (sectors_read p);
          write_delta = monus (sectors_written c) (sectors_written p)
      in \<lparr>dr_name = copy_trunc 32 (dc_name c),
          read_bps = d_div (d_mul (d_of_u64 read_delta) 512) (d_of_int interval_sec),
          write_bps = d_div (d_mul (d_of_u64 write_delta) 512) (d_of_int interval_sec)\<rparr>)"

fun disk_rate_loop :: "disk_snapshot \<Rightarrow> int \<Rightarrow> disk_snapshot \<Rightarrow> disk_stats \<Rightarrow> disk_stats" where
  "disk_rate_loop prev interval_sec [] out = out"
| "disk_rate_loop prev interval_sec (c # cs) out =
     (if length out < MAX_DISKS then
        (case find_disk prev (dc_name c) of
           None \<Rightarrow> disk_rate_loop prev interval_sec cs out
         | Some idx \<Rightarrow> disk_rate_loop prev interval_sec cs (out @ [disk_rate (prev ! idx) c interval_sec]))
      else out)"

definition disk_compute_stats ::
  "disk_snapshot option \<Rightarrow> disk_snapshot option \<Rightarrow> int \<Rightarrow> disk_stats option" where
  "disk_compute_stats prevp curp interval_sec =
     (case (prevp, curp) of
        (Some prev, Some cur) \<Rightarrow>
          if interval_sec \<le> 0 then None else Some (disk_rate_loop prev interval_sec cur [])
      | _ \<Rightarrow> None)"

section \<open>The contract of the rates\<close>

lemma disk_rate_loop_eq:
  "length out + length cs \<le> MAX_DISKS \<Longrightarrow>
     disk_rate_loop prev iv cs out =
       out @ List.map_filter (\<lambda>c. map_option (\<lambda>p. disk_rate p c iv) (List.find (\<lambda>p. dc_name p = dc_name c) prev)) cs"
proof (induction cs arbitrary: out)
  case (Cons c cs)
  have f: "List.find (\<lambda>p. dc_name p = dc_name c) prev = map_option (nth prev) (find_disk prev (dc_name c))"
    by (simp add: find_disk_def find_name_nth)
  show ?case
    using Cons by (cases "find_disk prev (dc_name c)") (simp_all add: f List.map_filter_def)
qed (simp add: List.map_filter_def)

text \<open>Bytes per second from sectors: the double nearest to the quotient of the bytes in the grown
  sectors and the interval; the number of sectors is itself rounded to a double, which changes
  nothing below 2^53. A counter that went back gives 0.\<close>

definition sector_rate :: "u64 \<Rightarrow> u64 \<Rightarrow> int \<Rightarrow> double" where
  "sector_rate old new iv = rnd (512 * rnd (of_nat (unat new - unat old)) / of_int iv)"

lemma sector_rate_growth:
  assumes "0 < iv" "iv < 2 ^ 31"
  shows "growth (\<lambda>n. rnd (rnd (of_nat n) * 512)) iv old new = sector_rate old new iv"
proof -
  have "rnd (rnd (of_nat n) * 512) = 512 * rnd (of_nat n)" for n
    using rnd_scale [of "rnd (of_nat n)" 9] by simp
  moreover have "rnd (of_int iv) = of_int iv" using assms by (intro rnd_of_int) simp
  ultimately show ?thesis by (simp add: growth_def sector_rate_def)
qed

interpretation disk_rates: delta_rates
  "\<lambda>prev cur. disk_compute_stats (Some prev) (Some cur)" dc_name disk_rate dr_name
  "\<lambda>r. [read_bps r, write_bps r]" MAX_DISKS
  "\<lambda>c. [sectors_read c, sectors_written c]" "\<lambda>n. rnd (rnd (of_nat n) * 512)"
  by unfold_locales
    (auto simp: disk_compute_stats_def disk_rate_loop_eq disk_rate_def d_of_monus d_mul_def d_div_def
      d_of_int_def growth_def Let_def)

section \<open>Reading back\<close>

text \<open>What a row of \<^verbatim>\<open>/proc/diskstats\<close> says: its third field is the name of the device, its
  sixth and tenth are the sectors read and written, whatever the other fields and however many
  follow. A row of fewer than ten fields says nothing.\<close>

definition disk_row :: "cstring list \<Rightarrow> disk_counter option \<Rightarrow> bool" where
  "disk_row ts d =
     (case d of
        None \<Rightarrow> length ts < 10
      | Some c \<Rightarrow> 10 \<le> length ts \<and> length (dc_name c) < 32 \<and> ts ! 2 = dc_name c \<and>
          ts ! 5 = show_nat (unat (sectors_read c)) \<and> ts ! 9 = show_nat (unat (sectors_written c)))"

lemma disk_fields_bound: "fst (disk_fields ts field st) \<le> field + length ts"
proof (induction ts field st rule: disk_fields.induct)
  case (2 token ts field name r w)
  then show ?case by (auto simp: Let_def split: option.splits)
qed simp

lemma disk_line_row:
  assumes "row_ok ps" "disk_row (map snd ps) d"
  shows "disk_line (row_text ps @ [LF]) =
    (case d of Some c \<Rightarrow> if is_whole_disk_name (Some (dc_name c)) then Some c else None | None \<Rightarrow> None)"
proof (cases "ps = []")
  case True
  with assms(2) show ?thesis
    by (auto simp: disk_line_def trim_empty_row [simplified] disk_row_def split: option.splits)
next
  case False
  let ?ts = "map snd ps"
  note t = trim_strtok_row [OF assms(1) False]
  show ?thesis
  proof (cases d)
    case None
    then have "fst (disk_fields ?ts 0 (None, 0, 0)) < 10"
      using disk_fields_bound [of ?ts 0 "(None, 0, 0)"] assms(2) by (simp add: disk_row_def)
    with None show ?thesis
      unfolding disk_line_def Let_def conjunct2 [OF t] by (auto split: prod.splits)
  next
    case (Some c)
    then have c: "10 \<le> length ?ts" "length (dc_name c) < 32" "?ts ! 2 = dc_name c"
      "?ts ! 5 = show_nat (unat (sectors_read c))" "?ts ! 9 = show_nat (unat (sectors_written c))"
      using assms(2) unfolding disk_row_def by simp_all
    have "disk_fields ?ts 0 (None, 0, 0) = (10, Some (dc_name c), sectors_read c, sectors_written c)"
      by (subst ten_fields [OF c(1)]) (simp add: c(3-5) del: nth_map)
    moreover have "\<lparr>dc_name = copy_trunc 32 (dc_name c), sectors_read = sectors_read c,
        sectors_written = sectors_written c\<rparr> = c" using c(2) by simp
    ultimately show ?thesis
      unfolding disk_line_def Let_def conjunct2 [OF t] using t Some by simp
  qed
qed

lemma disk_lines_map_filter:
  "disk_lines ls out = out @ take (MAX_DISKS - length out) (List.map_filter disk_line ls)"
proof (induction ls arbitrary: out)
  case (Cons l ls)
  show ?case
  proof (cases "length out < MAX_DISKS")
    case True
    then have "MAX_DISKS - length out = Suc (MAX_DISKS - Suc (length out))" by simp
    with Cons True show ?thesis by (simp add: List.map_filter_def split: option.split)
  qed simp
qed (simp add: List.map_filter_def)

section \<open>Properties\<close>

text \<open>C34: A \<^verbatim>\<open>/proc/diskstats\<close> is read exactly, for lines of any fields separated and preceded
  by any blanks that the 512-byte buffer holds and that have either fewer than ten fields or, in the
  third, a name of fewer than 32 characters and in the sixth and the tenth a decimal number below
  2^64: of the latter, those that name a whole disk (no partition, loop or device-mapper device) are
  kept, in order, up to 32 of them, with the two numbers as their sectors read and written. Lines of
  fewer than ten fields, empty ones among them, are skipped.\<close>

theorem disk_read_exact:
  assumes "\<forall>(ps, d) \<in> set rows. row_line 512 ps \<and> disk_row (map snd ps) d"
  shows "disk_read_snapshot (Some (concat (map (\<lambda>ps. row_text ps @ [LF]) (map fst rows)))) (Some old) =
    (0, Some (take 32 (filter (\<lambda>c. is_whole_disk_name (Some (dc_name c))) (List.map_filter snd rows))))"
proof -
  have "list_all (row_line 512) (map fst rows)" using assms by (auto simp: list_all_iff)
  moreover have "List.map_filter disk_line (map (\<lambda>ps. row_text ps @ [LF]) (map fst rows)) =
      filter (\<lambda>c. is_whole_disk_name (Some (dc_name c))) (List.map_filter snd rows)"
    using assms
    by (induction rows) (auto simp: List.map_filter_def row_line_def disk_line_row split: option.splits)
  ultimately show ?thesis
    by (simp only: disk_read_snapshot_def fgets_lines_rows disk_lines_map_filter option.case)
      (simp add: MAX_DISKS_def)
qed

text \<open>C35: The rates of two snapshots, of at most 32 disks with names of fewer than 32 characters, are
  reported for exactly the current disks the previous snapshot has, in the current order, and their
  values are pinned: the sectors by which the counter grew, 0 when it was reset, as a double, times
  512, over the interval, rounded to the nearest double; the read rate is that of the sectors read
  and the write rate that of the sectors written. An interval that is not positive is refused.\<close>

theorem disk_rates_spec:
  assumes "length cur \<le> 32" "\<forall>c \<in> set cur. length (dc_name c) < 32" "iv < 2 ^ 31"
  shows "disk_compute_stats (Some prev) (Some cur) iv =
    (if iv \<le> 0 then None
     else Some (List.map_filter
       (\<lambda>c. map_option
          (\<lambda>p. \<lparr>dr_name = dc_name c,
             read_bps = sector_rate (sectors_read p) (sectors_read c) iv,
             write_bps = sector_rate (sectors_written p) (sectors_written c) iv\<rparr>)
          (List.find (\<lambda>p. dc_name p = dc_name c) prev)) cur))"
proof -
  have eq: "xs = ys" if "map (\<lambda>r. (dr_name r, [read_bps r, write_bps r])) xs =
      map (\<lambda>r. (dr_name r, [read_bps r, write_bps r])) ys" for xs ys :: disk_stats
    by (rule map_injective [OF that]) (auto intro!: injI disk_rate_entry.equality)
  have len: "length cur \<le> MAX_DISKS" using assms(1) by (simp add: MAX_DISKS_def)
  show ?thesis
    using disk_rates.report [OF len assms(2), of prev iv] assms(3)
    by (auto intro!: eq simp: sector_rate_growth map_map_filter option.map_comp comp_def)
qed

text \<open>The reader checks the sectors-read field, but not the sectors-written field: a line whose
  tenth field is no number is kept with 0 sectors written, where one whose sixth field is none is
  skipped.\<close>

theorem disk_bad_fields:
  assumes "row_ok ps" "row_ok qs" "map snd ps = ts @ [bad] @ us"
    "map snd qs = take 5 ts @ [bad] @ drop 6 ts @ us" "parse_ull bad = None"
    "length ts = 9" "parse_ull (ts ! 5) = Some r" "is_whole_disk_name (Some (ts ! 2))"
  shows "disk_line (row_text ps @ [LF]) =
      Some \<lparr>dc_name = copy_trunc 32 (ts ! 2), sectors_read = r, sectors_written = 0\<rparr> \<and>
    disk_line (row_text qs @ [LF]) = None"
proof -
  obtain t0 t1 t2 t3 t4 t5 t6 t7 t8 where ts: "ts = [t0, t1, t2, t3, t4, t5, t6, t7, t8]"
    using assms(6) by (auto simp: eval_nat_numeral length_Suc_conv)
  have p: "parse_ull t5 = Some r" "is_whole_disk_name (Some t2)" using assms(7,8) by (simp_all add: ts)
  have "ps \<noteq> []" "qs \<noteq> []" using assms(3,4) by auto
  note t = trim_strtok_row [OF assms(1) this(1)] trim_strtok_row [OF assms(2) this(2)]
  have "disk_fields (ts @ [bad] @ us) 0 (None, 0, 0) = (10, Some t2, r, 0)"
    "disk_fields (take 5 ts @ [bad] @ drop 6 ts @ us) 0 (None, 0, 0) = (6, Some t2, 0, 0)"
    using p assms(5) by (simp_all add: ts)
  then show ?thesis
    unfolding disk_line_def Let_def conjunct2 [OF t(1)] conjunct2 [OF t(2)] assms(3,4)
    using t p(2) by (simp add: ts)
qed

definition demo_disks :: disk_snapshot where
  "demo_disks =
     [\<lparr>dc_name = ''sda'', sectors_read = 100, sectors_written = 7\<rparr>,
      \<lparr>dc_name = ''sda1'', sectors_read = 90, sectors_written = 7\<rparr>,
      \<lparr>dc_name = ''nvme0n1'', sectors_read = 5, sectors_written = 6\<rparr>]"

text \<open>Lines as the kernel prints them: right-aligned device numbers and seventeen counters; and
  two lines that are none.\<close>

definition demo_diskstats :: "(row \<times> disk_counter option) list" where
  "demo_diskstats =
     [([(''   '', ''8''), (''       '', ''0''), ('' '', ''sda''), ('' '', ''31''), ('' '', ''2''), ('' '', ''100''),
        ('' '', ''17''), ('' '', ''3''), ('' '', ''0''), ('' '', ''7''), ('' '', ''1''), ('' '', ''0''), ('' '', ''12''),
        ('' '', ''18''), ('' '', ''0''), ('' '', ''0''), ('' '', ''0''), ('' '', ''0''), ('' '', ''2''), ('' '', ''1'')],
       Some (demo_disks ! 0)),
      ([(''   '', ''8''), (''       '', ''1''), ('' '', ''sda1''), ('' '', ''28''), ('' '', ''2''), ('' '', ''90''),
        ('' '', ''16''), ('' '', ''3''), ('' '', ''0''), ('' '', ''7''), ('' '', ''1'')], Some (demo_disks ! 1)),
      ([], None),
      ([('''', ''259''), (''       '', ''0''), ('' '', ''nvme0n1p1'')], None),
      ([('' '', ''259''), (''       '', ''0''), ('' '', ''nvme0n1''), ('' '', ''4''), ('' '', ''0''), ('' '', ''5''),
        ('' '', ''2''), ('' '', ''3''), ('' '', ''0''), ([TAB], ''6'')], Some (demo_disks ! 2))]"

theorem disk_read_exact_witness:
  "disk_read_snapshot (Some (concat (map (\<lambda>ps. row_text ps @ [LF]) (map fst demo_diskstats)))) (Some []) =
    (0, Some [\<lparr>dc_name = ''sda'', sectors_read = 100, sectors_written = 7\<rparr>,
              \<lparr>dc_name = ''nvme0n1'', sectors_read = 5, sectors_written = 6\<rparr>])"
proof -
  have "list_all (\<lambda>(ps, d). row_line 512 ps \<and> disk_row (map snd ps) d) demo_diskstats"
    by code_simp
  then have "\<forall>(ps, d) \<in> set demo_diskstats. row_line 512 ps \<and> disk_row (map snd ps) d"
    by (simp add: list_all_iff)
  moreover have "take 32 (filter (\<lambda>c. is_whole_disk_name (Some (dc_name c))) (List.map_filter snd demo_diskstats)) =
      [\<lparr>dc_name = ''sda'', sectors_read = 100, sectors_written = 7\<rparr>,
       \<lparr>dc_name = ''nvme0n1'', sectors_read = 5, sectors_written = 6\<rparr>]"
    by code_simp
  ultimately show ?thesis using disk_read_exact [of demo_diskstats "[]"] by simp
qed

text \<open>A disk that read 50 sectors in two seconds and whose write counter was reset, next to two
  that are new.\<close>

theorem disk_rates_spec_witness:
  "disk_compute_stats (Some [\<lparr>dc_name = ''sda'', sectors_read = 50, sectors_written = 9\<rparr>]) (Some demo_disks) 2 =
    Some [\<lparr>dr_name = ''sda'', read_bps = 12800, write_bps = 0\<rparr>]"
proof -
  have "length demo_disks \<le> 32" "\<forall>c \<in> set demo_disks. length (dc_name c) < 32" "(2 :: int) < 2 ^ 31"
    by (simp_all add: demo_disks_def)
  from disk_rates_spec [OF this, of "[\<lparr>dc_name = ''sda'', sectors_read = 50, sectors_written = 9\<rparr>]"]
  show ?thesis by (simp add: demo_disks_def List.map_filter_def sector_rate_def)
qed

definition demo_bad :: "cstring list \<Rightarrow> row" where
  "demo_bad = map (Pair [SPC])"

theorem disk_bad_fields_witness:
  "disk_line (row_text (demo_bad [''8'', ''0'', ''sda'', ''1'', ''1'', ''42'', ''1'', ''1'', ''1'', ''x'', ''1'']) @ [LF]) =
      Some \<lparr>dc_name = ''sda'', sectors_read = 42, sectors_written = 0\<rparr> \<and>
    disk_line (row_text (demo_bad [''8'', ''0'', ''sda'', ''1'', ''1'', ''x'', ''1'', ''1'', ''1'', ''1'']) @ [LF]) = None"
proof -
  let ?ts = "[''8'', ''0'', ''sda'', ''1'', ''1'', ''42'', ''1'', ''1'', ''1'']"
  let ?ps = "demo_bad (?ts @ [''x''] @ [''1''])" and ?qs = "demo_bad (take 5 ?ts @ [''x''] @ drop 6 ?ts @ [''1''])"
  have "row_ok ?ps" "row_ok ?qs" by code_simp+
  moreover have "map snd ?ps = ?ts @ [''x''] @ [''1'']" "map snd ?qs = take 5 ?ts @ [''x''] @ drop 6 ?ts @ [''1'']"
    by (simp_all add: demo_bad_def)
  moreover have "parse_ull ''x'' = None" "parse_ull (?ts ! 5) = Some 42"
    by (simp_all add: parse_ull_def strtoull_def isspace_def isdigit_def char_code_def dec_val_def digit_val_def)
  moreover have "is_whole_disk_name (Some (?ts ! 2))" by code_simp
  ultimately show ?thesis using disk_bad_fields [of ?ps ?qs ?ts "''x''" "[''1'']" 42] by simp
qed

end
