(* ===== verification/Network.thy ===== *)
theory Network
  imports Rate_Interface
begin

text \<open>
  The network collector of \<^verbatim>\<open>src/network.c\<close>: the interfaces of \<^verbatim>\<open>/proc/net/dev\<close> and their
  transfer rates between two snapshots. The array \<^verbatim>\<open>items\<close> with its counter \<^verbatim>\<open>count\<close> is the
  list of its entries in use.
\<close>

section \<open>State\<close>

definition MAX_INTERFACES :: nat where "MAX_INTERFACES = 32"

record net_counter =
  nc_name :: cstring
  rx_bytes :: u64
  tx_bytes :: u64

record net_rate_entry =
  nr_name :: cstring
  rx_bps :: double
  tx_bps :: double

type_synonym net_snapshot = "net_counter list"
type_synonym net_stats = "net_rate_entry list"

section \<open>Reading the counters\<close>

text \<open>The \<^verbatim>\<open>strtok\<close> loop: the field it stops at, and the name and counters found so far.\<close>

fun net_fields ::
  "cstring list \<Rightarrow> nat \<Rightarrow> cstring option \<times> u64 \<times> u64 \<Rightarrow> nat \<times> cstring option \<times> u64 \<times> u64" where
  "net_fields [] field st = (field, st)"
| "net_fields (token # ts) field (name, rx, tx) =
     (let field = field + 1
      in if field = 1 then
           if CHR '':'' \<notin> set token then (field, name, rx, tx)
           else net_fields ts field (Some (takeWhile (\<lambda>c. c \<noteq> CHR '':'') token), rx, tx)
         else if field = 2 then
           (case parse_ull token of
              None \<Rightarrow> (field, name, rx, tx)
            | Some v \<Rightarrow> net_fields ts field (name, v, tx))
         else if field = 10 then
           (case parse_ull token of
              None \<Rightarrow> (field, name, rx, tx)
            | Some v \<Rightarrow> (field, name, rx, v))
         else net_fields ts field (name, rx, tx))"

definition net_line :: "bool \<Rightarrow> cstring \<Rightarrow> net_counter option" where
  "net_line include_loopback line =
     (let cursor = trim_whitespace line
      in if cursor = [] then None
         else
           let (field, name, rx, tx) = net_fields (strtok_all is_blank cursor) 0 (None, 0, 0)
           in if field < 10 \<or> name = None then None
              else if \<not> include_loopback \<and> the name = ''lo'' then None
              else Some \<lparr>nc_name = copy_trunc 32 (the name), rx_bytes = rx, tx_bytes = tx\<rparr>)"

fun net_lines :: "bool \<Rightarrow> nat \<Rightarrow> cstring list \<Rightarrow> net_snapshot \<Rightarrow> net_snapshot" where
  "net_lines include_loopback line_no [] out = out"
| "net_lines include_loopback line_no (line # ls) out =
     (if length out < MAX_INTERFACES then
        if line_no + 1 \<le> 2 then net_lines include_loopback (line_no + 1) ls out
        else (case net_line include_loopback line of
                None \<Rightarrow> net_lines include_loopback (line_no + 1) ls out
              | Some c \<Rightarrow> net_lines include_loopback (line_no + 1) ls (out @ [c]))
      else out)"

definition net_read_snapshot ::
  "char list option \<Rightarrow> net_snapshot option \<Rightarrow> bool \<Rightarrow> rc \<times> net_snapshot option" where
  "net_read_snapshot proc_net_dev outp include_loopback =
     (case outp of
        None \<Rightarrow> (-1, None)
      | Some _ \<Rightarrow>
          (case proc_net_dev of
             None \<Rightarrow> (-1, Some [])
           | Some content \<Rightarrow> (0, Some (net_lines include_loopback 0 (fgets_lines 512 content) []))))"

section \<open>Rates\<close>

definition find_iface :: "net_snapshot \<Rightarrow> cstring \<Rightarrow> nat option" where
  "find_iface snap name = find_name nc_name snap name"

definition net_rate :: "net_counter \<Rightarrow> net_counter \<Rightarrow> int \<Rightarrow> net_rate_entry" where
  "net_rate p c interval_sec =
     (let rx_delta = monus (rx_bytes c) (rx_bytes p); tx_delta = monus (tx_bytes c) (tx_bytes p)
      in \<lparr>nr_name = copy_trunc 32 (nc_name c),
          rx_bps = d_div (d_of_u64 rx_delta) (d_of_int interval_sec),
          tx_bps = d_div (d_of_u64 tx_delta) (d_of_int interval_sec)\<rparr>)"

fun net_rate_loop :: "net_snapshot \<Rightarrow> int \<Rightarrow> net_snapshot \<Rightarrow> net_stats \<Rightarrow> net_stats" where
  "net_rate_loop prev interval_sec [] out = out"
| "net_rate_loop prev interval_sec (c # cs) out =
     (if length out < MAX_INTERFACES then
        (case find_iface prev (nc_name c) of
           None \<Rightarrow> net_rate_loop prev interval_sec cs out
         | Some idx \<Rightarrow> net_rate_loop prev interval_sec cs (out @ [net_rate (prev ! idx) c interval_sec]))
      else out)"

definition net_compute_stats ::
  "net_snapshot option \<Rightarrow> net_snapshot option \<Rightarrow> int \<Rightarrow> net_stats option" where
  "net_compute_stats prevp curp interval_sec =
     (case (prevp, curp) of
        (Some prev, Some cur) \<Rightarrow>
          if interval_sec \<le> 0 then None else Some (net_rate_loop prev interval_sec cur [])
      | _ \<Rightarrow> None)"

section \<open>The contract of the rates\<close>

lemma net_rate_loop_eq:
  "length out + length cs \<le> MAX_INTERFACES \<Longrightarrow>
     net_rate_loop prev iv cs out =
       out @ List.map_filter (\<lambda>c. map_option (\<lambda>p. net_rate p c iv) (List.find (\<lambda>p. nc_name p = nc_name c) prev)) cs"
proof (induction cs arbitrary: out)
  case (Cons c cs)
  have f: "List.find (\<lambda>p. nc_name p = nc_name c) prev = map_option (nth prev) (find_iface prev (nc_name c))"
    by (simp add: find_iface_def find_name_nth)
  show ?case
    using Cons by (cases "find_iface prev (nc_name c)") (simp_all add: f List.map_filter_def)
qed (simp add: List.map_filter_def)

text \<open>Bytes per second: the double nearest to the quotient of the grown bytes, as a double, and
  the interval. A counter that went back gives 0.\<close>

definition byte_rate :: "u64 \<Rightarrow> u64 \<Rightarrow> int \<Rightarrow> double" where
  "byte_rate old new iv = rnd (rnd (of_nat (unat new - unat old)) / of_int iv)"

lemma byte_rate_growth:
  assumes "0 < iv" "iv < 2 ^ 31"
  shows "growth (\<lambda>n. rnd (of_nat n)) iv old new = byte_rate old new iv"
proof -
  have "rnd (of_int iv) = of_int iv" using assms by (intro rnd_of_int) simp
  then show ?thesis by (simp add: growth_def byte_rate_def)
qed

interpretation net_rates: delta_rates
  "\<lambda>prev cur. net_compute_stats (Some prev) (Some cur)" nc_name net_rate nr_name
  "\<lambda>r. [rx_bps r, tx_bps r]" MAX_INTERFACES
  "\<lambda>c. [rx_bytes c, tx_bytes c]" "\<lambda>n. rnd (of_nat n)"
  by unfold_locales
    (auto simp: net_compute_stats_def net_rate_loop_eq net_rate_def d_of_monus d_div_def d_of_int_def
      growth_def Let_def)

section \<open>Reading back\<close>

text \<open>What a row of \<^verbatim>\<open>/proc/net/dev\<close> says: its first field is the name of the interface with a
  colon, its second and tenth are the bytes received and sent, whatever the other fields and
  however many follow. A row of fewer than ten fields, or without a colon in the first one, says
  nothing.\<close>

definition net_row :: "cstring list \<Rightarrow> net_counter option \<Rightarrow> bool" where
  "net_row ts d =
     (case d of
        None \<Rightarrow> length ts < 10 \<or> CHR '':'' \<notin> set (hd ts)
      | Some c \<Rightarrow> 10 \<le> length ts \<and> length (nc_name c) < 32 \<and> CHR '':'' \<notin> set (nc_name c) \<and>
          hd ts = nc_name c @ '':'' \<and>
          ts ! 1 = show_nat (unat (rx_bytes c)) \<and> ts ! 9 = show_nat (unat (tx_bytes c)))"

lemma net_fields_bound: "fst (net_fields ts field st) \<le> field + length ts"
proof (induction ts field st rule: net_fields.induct)
  case (2 token ts field name rx tx)
  then show ?case by (auto simp: Let_def numeral_2_eq_2 split: option.splits)
qed simp

lemma net_line_row:
  assumes "row_ok ps" "net_row (map snd ps) d"
  shows "net_line lo (row_text ps @ [LF]) =
    (case d of Some c \<Rightarrow> if lo \<or> nc_name c \<noteq> ''lo'' then Some c else None | None \<Rightarrow> None)"
proof (cases "ps = []")
  case True
  with assms(2) show ?thesis
    by (auto simp: net_line_def trim_empty_row [simplified] net_row_def split: option.splits)
next
  case False
  let ?ts = "map snd ps"
  note t = trim_strtok_row [OF assms(1) False]
  show ?thesis
  proof (cases d)
    case None
    have "fst (net_fields ?ts 0 (None, 0, 0)) < 10"
    proof (cases "length ?ts < 10")
      case True
      then show ?thesis using net_fields_bound [of ?ts 0 "(None, 0, 0)"] by simp
    next
      case ten: False
      then have "CHR '':'' \<notin> set (hd ?ts)" using assms(2) None by (simp add: net_row_def)
      with False show ?thesis by (cases ps) simp_all
    qed
    with None show ?thesis
      unfolding net_line_def Let_def conjunct2 [OF t] by (auto split: prod.splits)
  next
    case (Some c)
    then have c: "10 \<le> length ?ts" "length (nc_name c) < 32" "CHR '':'' \<notin> set (nc_name c)"
      "?ts ! 0 = nc_name c @ '':''"
      "?ts ! 1 = show_nat (unat (rx_bytes c))" "?ts ! 9 = show_nat (unat (tx_bytes c))"
      using assms(2) False unfolding net_row_def by (simp_all add: hd_conv_nth)
    have "takeWhile (\<lambda>d. d \<noteq> CHR '':'') (nc_name c @ '':'') = nc_name c"
      using c(3) by (intro takeWhile_stop) auto
    then have "net_fields ?ts 0 (None, 0, 0) = (10, Some (nc_name c), rx_bytes c, tx_bytes c)"
      by (subst ten_fields [OF c(1)]) (simp add: c(4-6) del: nth_map One_nat_def)
    moreover have "\<lparr>nc_name = copy_trunc 32 (nc_name c), rx_bytes = rx_bytes c, tx_bytes = tx_bytes c\<rparr> = c"
      using c(2) by simp
    ultimately show ?thesis
      unfolding net_line_def Let_def conjunct2 [OF t] using t Some by simp
  qed
qed

lemma net_lines_map_filter:
  "2 \<le> line_no \<Longrightarrow>
     net_lines lo line_no ls out = out @ take (MAX_INTERFACES - length out) (List.map_filter (net_line lo) ls)"
proof (induction ls arbitrary: line_no out)
  case (Cons l ls)
  show ?case
  proof (cases "length out < MAX_INTERFACES")
    case True
    then have "MAX_INTERFACES - length out = Suc (MAX_INTERFACES - Suc (length out))" by simp
    with Cons True show ?thesis by (simp add: List.map_filter_def split: option.split)
  qed simp
qed (simp add: List.map_filter_def)

section \<open>Properties\<close>

text \<open>C36: A \<^verbatim>\<open>/proc/net/dev\<close> is read exactly, for two header lines and then lines of any fields
  separated and preceded by any blanks that the 512-byte buffer holds, which are either no interface
  (fewer than ten fields, or no colon in the first) or have as first field a name of fewer than 32
  characters with a colon at its end and in the second and the tenth field a decimal number below
  2^64: every one of the latter is kept, in order, up to 32 of them, with the two numbers as its bytes
  received and sent, the loopback interface only on request; the former are skipped.\<close>

theorem net_read_exact:
  assumes "\<forall>(ps, d) \<in> set rows. row_line 512 ps \<and> net_row (map snd ps) d" "text_line 512 h1" "text_line 512 h2"
  shows "net_read_snapshot (Some (h1 @ h2 @ concat (map (\<lambda>ps. row_text ps @ [LF]) (map fst rows)))) (Some old) lo =
    (0, Some (take 32 (filter (\<lambda>c. lo \<or> nc_name c \<noteq> ''lo'') (List.map_filter snd rows))))"
proof -
  let ?ls = "map (\<lambda>ps. row_text ps @ [LF]) (map fst rows)"
  have "list_all (text_line 512) (h1 # h2 # ?ls)"
    using assms by (auto simp: list_all_iff row_text_line)
  from fgets_lines_concat [OF this] have "fgets_lines 512 (h1 @ h2 @ concat ?ls) = h1 # h2 # ?ls" by simp
  moreover have "List.map_filter (net_line lo) ?ls = filter (\<lambda>c. lo \<or> nc_name c \<noteq> ''lo'') (List.map_filter snd rows)"
    using assms(1)
    by (induction rows) (auto simp: List.map_filter_def row_line_def net_line_row split: option.splits)
  moreover have "0 < MAX_INTERFACES" by (simp add: MAX_INTERFACES_def)
  ultimately show ?thesis
    by (simp add: net_read_snapshot_def net_lines_map_filter del: map_map) (simp add: MAX_INTERFACES_def)
qed

text \<open>The rates of two snapshots are reported for exactly the current interfaces the previous
  snapshot has, in the current order, and their values are exact: the bytes by which each counter
  grew (0 when it was reset), over the interval, as the nearest double. An interval that is not
  positive is refused.\<close>

theorem net_rates_spec:
  assumes "length cur \<le> 32" "\<forall>c \<in> set cur. length (nc_name c) < 32" "iv < 2 ^ 31"
  shows "net_compute_stats (Some prev) (Some cur) iv =
    (if iv \<le> 0 then None
     else Some (List.map_filter
       (\<lambda>c. map_option
          (\<lambda>p. \<lparr>nr_name = nc_name c,
             rx_bps = byte_rate (rx_bytes p) (rx_bytes c) iv,
             tx_bps = byte_rate (tx_bytes p) (tx_bytes c) iv\<rparr>)
          (List.find (\<lambda>p. nc_name p = nc_name c) prev)) cur))"
proof -
  have eq: "xs = ys" if "map (\<lambda>r. (nr_name r, [rx_bps r, tx_bps r])) xs =
      map (\<lambda>r. (nr_name r, [rx_bps r, tx_bps r])) ys" for xs ys :: net_stats
    by (rule map_injective [OF that]) (auto intro!: injI net_rate_entry.equality)
  have len: "length cur \<le> MAX_INTERFACES" using assms(1) by (simp add: MAX_INTERFACES_def)
  show ?thesis
    using net_rates.report [OF len assms(2), of prev iv] assms(3)
    by (auto intro!: eq simp: byte_rate_growth map_map_filter option.map_comp comp_def)
qed

definition demo_net :: net_snapshot where
  "demo_net =
     [\<lparr>nc_name = ''lo'', rx_bytes = 1, tx_bytes = 1\<rparr>,
      \<lparr>nc_name = ''eth0'', rx_bytes = 1000, tx_bytes = 50\<rparr>]"

text \<open>Lines as the kernel prints them: right-aligned names and sixteen counters; and a line that
  is none.\<close>

definition demo_net_dev :: "(row \<times> net_counter option) list" where
  "demo_net_dev =
     [([(''    '', ''lo:''), (''       '', ''1''), (''       '', ''9''), (''    '', ''0''), (''    '', ''0''),
        (''    '', ''0''), (''     '', ''0''), (''          '', ''0''), (''         '', ''0''), (''       '', ''1''),
        (''       '', ''9''), (''    '', ''0''), (''    '', ''0''), (''    '', ''0''), (''     '', ''0''),
        (''       '', ''0''), (''          '', ''0'')], Some (demo_net ! 0)),
      ([([TAB], ''face'')], None),
      ([(''  '', ''eth0:''), (''    '', ''1000''), (''       '', ''8''), (''    '', ''0''), (''    '', ''2''),
        (''    '', ''0''), (''     '', ''0''), (''          '', ''0''), (''         '', ''4''), (''      '', ''50''),
        (''       '', ''3''), (''    '', ''0''), (''    '', ''0''), (''    '', ''0''), (''     '', ''0''),
        (''       '', ''0''), (''          '', ''0'')], Some (demo_net ! 1))]"

theorem net_read_exact_witness:
  "net_read_snapshot (Some ((''Inter-|'' @ [LF]) @ ('' face |'' @ [LF]) @
      concat (map (\<lambda>ps. row_text ps @ [LF]) (map fst demo_net_dev)))) (Some []) False =
    (0, Some [\<lparr>nc_name = ''eth0'', rx_bytes = 1000, tx_bytes = 50\<rparr>])"
proof -
  have "list_all (\<lambda>(ps, d). row_line 512 ps \<and> net_row (map snd ps) d) demo_net_dev" by code_simp
  then have "\<forall>(ps, d) \<in> set demo_net_dev. row_line 512 ps \<and> net_row (map snd ps) d"
    by (simp add: list_all_iff)
  moreover have "text_line 512 (''Inter-|'' @ [LF])" "text_line 512 ('' face |'' @ [LF])"
    by (rule text_line_intro [OF _ _ _ refl]; simp)+
  moreover have "take 32 (filter (\<lambda>c. False \<or> nc_name c \<noteq> ''lo'') (List.map_filter snd demo_net_dev)) =
      [\<lparr>nc_name = ''eth0'', rx_bytes = 1000, tx_bytes = 50\<rparr>]"
    by code_simp
  ultimately show ?thesis
    using net_read_exact [of demo_net_dev "''Inter-|'' @ [LF]" "'' face |'' @ [LF]" "[]" False] by simp
qed

theorem net_rates_spec_witness:
  "net_compute_stats (Some [\<lparr>nc_name = ''eth0'', rx_bytes = 50, tx_bytes = 60\<rparr>]) (Some demo_net) 2 =
    Some [\<lparr>nr_name = ''eth0'', rx_bps = 475, tx_bps = 0\<rparr>]"
proof -
  have "length demo_net \<le> 32" "\<forall>c \<in> set demo_net. length (nc_name c) < 32" "(2 :: int) < 2 ^ 31"
    by (simp_all add: demo_net_def)
  from net_rates_spec [OF this, of "[\<lparr>nc_name = ''eth0'', rx_bytes = 50, tx_bytes = 60\<rparr>]"]
  show ?thesis by (simp add: demo_net_def List.map_filter_def byte_rate_def)
qed

end
