(* ===== verification/Events.thy ===== *)
theory Events
  imports Json_Spec Config_State Cpu Memory Disk Network
begin

text \<open>
  The event texts of \<^verbatim>\<open>collector_thread\<close> in \<^verbatim>\<open>src/main.c\<close>, one definition per
  \<^verbatim>\<open>snprintf\<close>, in their fixed-size buffers, and the host name they all carry.
\<close>

section \<open>Host and buffers\<close>

text \<open>\<open>gethostname\<close> is what the system call stores when it succeeds.\<close>

definition resolve_event_host ::
  "syswatch_config option \<Rightarrow> cstring option \<Rightarrow> char list option \<Rightarrow> nat \<Rightarrow> char list option" where
  "resolve_event_host cfgp gethostname host_json host_json_size =
     (if host_json = None \<or> host_json_size = 0 then host_json
      else
        let hostbuf =
              (case cfgp of
                 Some cfg \<Rightarrow>
                   if host_override cfg \<noteq> [] then copy_trunc 128 (host_override cfg)
                   else (case gethostname of Some h \<Rightarrow> h | None \<Rightarrow> copy_trunc 128 ''unknown'')
               | None \<Rightarrow> (case gethostname of Some h \<Rightarrow> h | None \<Rightarrow> copy_trunc 128 ''unknown''))
        in json_escape_string (Some hostbuf) host_json host_json_size)"

definition host_text :: "syswatch_config \<Rightarrow> cstring option \<Rightarrow> cstring" where
  "host_text cfg gethostname =
     cstr (the (resolve_event_host (Some cfg) gethostname (Some (replicate 256 NUL)) 256))"

text \<open>\<^verbatim>\<open>pos += snprintf(json + pos, sizeof(json) - pos, ...)\<close> on the position and the string in
  the buffer.\<close>

definition append_at :: "nat \<Rightarrow> cstring \<Rightarrow> nat \<times> cstring \<Rightarrow> nat \<times> cstring" where
  "append_at size_json s st =
     (case st of (pos, json) \<Rightarrow> (pos + length s, take pos json @ copy_trunc (size_json - pos) s))"

section \<open>Event texts\<close>

definition event_head :: "cstring \<Rightarrow> cstring \<Rightarrow> cstring \<Rightarrow> cstring" where
  \<open>event_head rfc_ts host_json event_type =
     ''{"schema_version":"1.0","timestamp":"'' @ rfc_ts @ ''","host":"'' @ host_json @
     ''","source":"syswatch","source_version":"0.1.1","event_type":"'' @ event_type @
     ''","severity":"info","payload":''\<close>

definition lifecycle_event :: "cstring \<Rightarrow> cstring \<Rightarrow> cstring \<Rightarrow> cstring" where
  \<open>lifecycle_event event_type rfc_ts host_json =
     copy_trunc 512 (event_head rfc_ts host_json event_type @ ''{}}'')\<close>

definition warming_up_event :: "cstring \<Rightarrow> cstring \<Rightarrow> cstring" where
  "warming_up_event = lifecycle_event ''syswatch.lifecycle.warming_up''"

definition ready_event :: "cstring \<Rightarrow> cstring \<Rightarrow> cstring" where
  "ready_event = lifecycle_event ''syswatch.lifecycle.ready''"

definition cpu_event :: "cstring \<Rightarrow> cstring \<Rightarrow> cpu_stats \<Rightarrow> cstring" where
  \<open>cpu_event rfc_ts host_json s =
     copy_trunc 1024 (event_head rfc_ts host_json ''system.metrics.cpu'' @
       ''{"usage_pct":'' @ fmt_fixed 1 (usage_pct s) @ '',"user_pct":'' @ fmt_fixed 1 (user_pct s) @
       '',"system_pct":'' @ fmt_fixed 1 (system_pct s) @ '',"idle_pct":'' @ fmt_fixed 1 (idle_pct s) @
       '',"core_count":'' @ show_nat (length (core_usage_pct s)) @ ''}}'')\<close>

definition llu :: "u64 \<Rightarrow> cstring" where
  "llu v = show_nat (unat v)"

definition memory_event :: "cstring \<Rightarrow> cstring \<Rightarrow> memory_stats \<Rightarrow> cstring" where
  \<open>memory_event rfc_ts host_json m =
     copy_trunc 1024 (event_head rfc_ts host_json ''system.metrics.memory'' @
       ''{"mem_total":'' @ llu (mem_total m) @ '',"mem_available":'' @ llu (mem_available m) @
       '',"mem_free":'' @ llu (mem_free m) @ '',"mem_used":'' @ llu (mem_used m) @
       '',"swap_total":'' @ llu (swap_total m) @ '',"swap_free":'' @ llu (swap_free m) @
       '',"swap_used":'' @ llu (swap_used m) @ ''}}'')\<close>

definition disk_entry :: "disk_rate_entry \<Rightarrow> cstring" where
  \<open>disk_entry e =
     ''{"name":"'' @ dr_name e @ ''","read_bps":'' @ fmt_fixed 0 (read_bps e) @
     '',"write_bps":'' @ fmt_fixed 0 (write_bps e) @ ''}''\<close>

definition net_entry :: "net_rate_entry \<Rightarrow> cstring" where
  \<open>net_entry e =
     ''{"name":"'' @ nr_name e @ ''","rx_bps":'' @ fmt_fixed 0 (rx_bps e) @
     '',"tx_bps":'' @ fmt_fixed 0 (tx_bps e) @ ''}''\<close>

text \<open>The loop over the entries: \<open>i\<close> is its counter, and it stops 512 bytes before the end.\<close>

fun entries_loop :: "nat \<Rightarrow> cstring list \<Rightarrow> nat \<times> cstring \<Rightarrow> nat \<times> cstring" where
  "entries_loop i [] st = st"
| "entries_loop i (e # es) st =
     (if fst st < 2048 - 512 then
        let st = (if i > 0 then append_at 2048 '','' st else st)
        in entries_loop (Suc i) es (append_at 2048 e st)
      else st)"

definition entries_event :: "cstring \<Rightarrow> cstring list \<Rightarrow> cstring" where
  \<open>entries_event head es =
     (let pos = length head; json = copy_trunc 2048 head
      in snd (append_at 2048 '']}}'' (entries_loop 0 es (pos, json))))\<close>

definition disk_head :: "cstring \<Rightarrow> cstring \<Rightarrow> cstring" where
  \<open>disk_head rfc_ts host_json = event_head rfc_ts host_json ''system.metrics.disk'' @ ''{"disks":[''\<close>

definition network_head :: "cstring \<Rightarrow> cstring \<Rightarrow> cstring" where
  \<open>network_head rfc_ts host_json =
     event_head rfc_ts host_json ''system.metrics.network'' @ ''{"interfaces":[''\<close>

definition disk_event :: "cstring \<Rightarrow> cstring \<Rightarrow> disk_stats \<Rightarrow> cstring" where
  \<open>disk_event rfc_ts host_json ds =
     entries_event (disk_head rfc_ts host_json) (map disk_entry ds)\<close>

definition network_event :: "cstring \<Rightarrow> cstring \<Rightarrow> net_stats \<Rightarrow> cstring" where
  \<open>network_event rfc_ts host_json ns =
     entries_event (network_head rfc_ts host_json) (map net_entry ns)\<close>

definition internal_event :: "cstring \<Rightarrow> cstring \<Rightarrow> u64 \<Rightarrow> u64 \<Rightarrow> u64 \<Rightarrow> cstring" where
  \<open>internal_event rfc_ts host_json buffer_depth events_dropped_total events_emitted_total =
     copy_trunc 1024 (event_head rfc_ts host_json ''syswatch.internal'' @
       ''{"buffer_depth":'' @ llu buffer_depth @ '',"events_dropped_total":'' @ llu events_dropped_total @
       '',"events_emitted_total":'' @ llu events_emitted_total @ ''}}'')\<close>

section \<open>Grammar of the texts\<close>

lemma plain_letters [simp]: "isalpha c \<Longrightarrow> plain_json c" "isdigit c \<Longrightarrow> plain_json c"
  by (auto simp: plain_json_def isalpha_def isdigit_def char_code_eq)

lemma member_unfold: \<open>member k v = ''"'' @ k @ ''":'' @ v\<close>
  by (simp add: member_def quoted_text_def)

text \<open>An object is well-formed when each of its members is; \<open>members\<close> joins them.\<close>

fun members :: "(cstring \<times> cstring) list \<Rightarrow> cstring" where
  "members [] = []"
| "members [(k, v)] = member k v"
| "members ((k, v) # kv # kvs) = member k v @ '','' @ members (kv # kvs)"

lemma json_members_list:
  "kvs \<noteq> [] \<Longrightarrow> \<forall>(k, v) \<in> set kvs. json_text k \<and> json_value v \<Longrightarrow> json_members (members kvs)"
  by (induction kvs rule: members.induct) (auto intro: last_member more_members [simplified])

lemma json_object_list:
  "\<forall>(k, v) \<in> set kvs. json_text k \<and> json_value v \<Longrightarrow> json_value (''{'' @ members kvs @ ''}'')"
  using json_members_list [of kvs] object empty_object by (cases "kvs = []") auto

text \<open>Every event is an object of eight members.\<close>

lemma event_members:
  \<open>event_head rfc_ts host_json event_type @ payload @ ''}'' =
     ''{'' @ members
       [(''schema_version'', quoted_text ''1.0''), (''timestamp'', quoted_text rfc_ts),
        (''host'', quoted_text host_json), (''source'', quoted_text ''syswatch''),
        (''source_version'', quoted_text ''0.1.1''), (''event_type'', quoted_text event_type),
        (''severity'', quoted_text ''info''), (''payload'', payload)] @ ''}''\<close>
  by (simp add: event_head_def member_def quoted_text_def)

lemma json_text_consts [simp]:
  "json_text ''schema_version''" "json_text ''timestamp''" "json_text ''host''" "json_text ''source''"
  "json_text ''source_version''" "json_text ''event_type''" "json_text ''severity''" "json_text ''payload''"
  "json_text ''1.0''" "json_text ''syswatch''" "json_text ''0.1.1''" "json_text ''info''"
  by code_simp+

lemma json_text_types [simp]:
  "json_text ''syswatch.lifecycle.warming_up''" "json_text ''syswatch.lifecycle.ready''"
  "json_text ''system.metrics.cpu''" "json_text ''system.metrics.memory''"
  "json_text ''system.metrics.disk''" "json_text ''system.metrics.network''" "json_text ''syswatch.internal''"
  by code_simp+

lemma json_text_keys [simp]:
  "json_text ''usage_pct''" "json_text ''user_pct''" "json_text ''system_pct''" "json_text ''idle_pct''"
  "json_text ''core_count''" "json_text ''mem_total''" "json_text ''mem_available''" "json_text ''mem_free''"
  "json_text ''mem_used''" "json_text ''swap_total''" "json_text ''swap_free''" "json_text ''swap_used''"
  "json_text ''disks''" "json_text ''interfaces''" "json_text ''name''" "json_text ''read_bps''"
  "json_text ''write_bps''" "json_text ''rx_bps''" "json_text ''tx_bps''" "json_text ''buffer_depth''"
  "json_text ''events_dropped_total''" "json_text ''events_emitted_total''"
  by code_simp+

lemma json_event:
  assumes "json_text rfc_ts" "json_text host_json" "json_text event_type" "json_value payload"
  shows \<open>json_value (event_head rfc_ts host_json event_type @ payload @ ''}'')\<close>
  unfolding event_members using assms by (intro json_object_list) (auto intro: text_value)

text \<open>What the callers pass: a timestamp of at most 63 and a host of at most 255 characters.\<close>

definition head_ok :: "cstring \<Rightarrow> cstring \<Rightarrow> bool" where
  "head_ok rfc_ts host_json \<longleftrightarrow>
     json_text rfc_ts \<and> json_text host_json \<and> no_nul rfc_ts \<and> no_nul host_json \<and>
     length rfc_ts < 64 \<and> length host_json < 256"

lemma length_event_head:
  "head_ok rfc_ts host_json \<Longrightarrow> length (event_head rfc_ts host_json event_type) \<le> 464 + length event_type"
  by (simp add: event_head_def head_ok_def)

lemma length_llu [simp]: "length (llu v) \<le> 20"
  using length_show_u64 by (simp add: llu_def)

lemma json_llu [simp]: "json_value (llu v)"
  by (simp add: llu_def)

lemma json_quoted [simp]: "json_text s \<Longrightarrow> json_value (quoted_text s)"
  by (rule text_value)

section \<open>The loop over disks and interfaces\<close>

text \<open>An entry is a JSON object of at most 120 characters.\<close>

definition entry_ok :: "cstring \<Rightarrow> bool" where
  "entry_ok e \<longleftrightarrow> json_value e \<and> length e \<le> 120"

lemma append_at_end:
  "length json + length s < size_json \<Longrightarrow>
     append_at size_json s (length json, json) = (length (json @ s), json @ s)"
  by (simp add: append_at_def)

lemma entries_loop_spec:
  assumes "list_all entry_ok es" "length json \<le> 1656"
  shows "\<exists>k \<le> length es. \<exists>json'. entries_loop i es (length json, json) = (length json', json') \<and>
    json' = json @ (if k = 0 then [] else (if i > 0 then '','' else []) @ join_items (take k es)) \<and>
    (k < length es \<longrightarrow> 1536 \<le> length json') \<and> length json' \<le> 1656"
  using assms
proof (induction es arbitrary: i json)
  case (Cons e es)
  show ?case
  proof (cases "length json < 1536")
    case True
    let ?sep = "if i > 0 then '','' else []"
    let ?json = "json @ ?sep @ e"
    have e: "length e \<le> 120" using Cons.prems(1) by (simp add: entry_ok_def)
    have es: "list_all entry_ok es" using Cons.prems(1) by simp
    have "entries_loop i (e # es) (length json, json) = entries_loop (Suc i) es (length ?json, ?json)"
      using True e append_at_end [of "json @ '',''" e 2048] append_at_end [of json e 2048]
        append_at_end [of json "'',''" 2048] by (cases "i > 0") simp_all
    moreover have "length ?json \<le> 1656" using True e by auto
    from Cons.IH [OF es this, of "Suc i"] obtain k json' where k: "k \<le> length es"
      "entries_loop (Suc i) es (length ?json, ?json) = (length json', json')"
      "json' = ?json @ (if k = 0 then [] else (if Suc i > 0 then '','' else []) @ join_items (take k es))"
      "k < length es \<longrightarrow> 1536 \<le> length json'" "length json' \<le> 1656" by blast
    moreover have "e @ (if k = 0 then [] else '','' @ join_items (take k es)) = join_items (take (Suc k) (e # es))"
      using k(1) by (cases k; cases es) (auto simp: join_Cons)
    ultimately show ?thesis by (intro exI [of _ "Suc k"] conjI exI [of _ json']) auto
  next
    case False
    then show ?thesis using Cons.prems(2) by (intro exI [of _ 0]) simp
  qed
qed simp

lemma json_join:
  "es \<noteq> [] \<Longrightarrow> \<forall>e \<in> set es. json_value e \<Longrightarrow> json_elements (join_items es)"
  by (induction es rule: join_items.induct)
    (auto intro: last_element more_elements [simplified])

lemma entries_event_spec:
  assumes "list_all entry_ok es" "length head \<le> 1000"
  shows "\<exists>k \<le> length es. entries_event head es = head @ join_items (take k es) @ '']}}'' \<and>
    length (entries_event head es) < 2048 \<and> (k < length es \<longrightarrow> 1536 \<le> length head + length (join_items (take k es)))"
proof -
  have head: "copy_trunc 2048 head = head" "length head \<le> 1656" using assms(2) by simp_all
  from entries_loop_spec [OF assms(1) head(2), of 0] obtain k json where k: "k \<le> length es"
    "entries_loop 0 es (length head, head) = (length json, json)"
    "json = head @ (if k = 0 then [] else (if (0 :: nat) > 0 then '','' else []) @ join_items (take k es))"
    "k < length es \<longrightarrow> 1536 \<le> length json" "length json \<le> 1656" by blast
  then have j: "json = head @ join_items (take k es)" by simp
  have "entries_event head es = json @ '']}}''"
    using append_at_end [of json "'']}}''" 2048] k(2,5) by (simp add: entries_event_def head)
  with k j show ?thesis by (intro exI [of _ k]) simp
qed

lemma fmt_rate_length:
  assumes "0 \<le> x" "x \<le> 2 ^ 73"
  shows "length (fmt_fixed 0 x) \<le> 22"
  using length_fmt_fixed [of x "2 ^ 73" 22 0] assms by simp

text \<open>Rates as the collectors compute them.\<close>

definition rate_ok :: "double \<Rightarrow> bool" where
  "rate_ok x \<longleftrightarrow> 0 \<le> x \<and> x \<le> 2 ^ 73"

definition name_ok :: "cstring \<Rightarrow> bool" where
  "name_ok n \<longleftrightarrow> json_text n \<and> length n < 32"

lemma disk_entry_ok:
  assumes "name_ok (dr_name e)" "rate_ok (read_bps e)" "rate_ok (write_bps e)"
  shows "entry_ok (disk_entry e)"
proof -
  have "disk_entry e = ''{'' @ members [(''name'', quoted_text (dr_name e)),
      (''read_bps'', fmt_fixed 0 (read_bps e)), (''write_bps'', fmt_fixed 0 (write_bps e))] @ ''}''"
    by (simp add: disk_entry_def member_def quoted_text_def)
  moreover have "json_value \<dots>" using assms(1) by (intro json_object_list) (simp add: name_ok_def)
  moreover have "length (disk_entry e) \<le> 120"
    using assms fmt_rate_length [of "read_bps e"] fmt_rate_length [of "write_bps e"]
    by (simp add: disk_entry_def name_ok_def rate_ok_def)
  ultimately show ?thesis by (simp only: entry_ok_def)
qed

lemma net_entry_ok:
  assumes "name_ok (nr_name e)" "rate_ok (rx_bps e)" "rate_ok (tx_bps e)"
  shows "entry_ok (net_entry e)"
proof -
  have "net_entry e = ''{'' @ members [(''name'', quoted_text (nr_name e)),
      (''rx_bps'', fmt_fixed 0 (rx_bps e)), (''tx_bps'', fmt_fixed 0 (tx_bps e))] @ ''}''"
    by (simp add: net_entry_def member_def quoted_text_def)
  moreover have "json_value \<dots>" using assms(1) by (intro json_object_list) (simp add: name_ok_def)
  moreover have "length (net_entry e) \<le> 120"
    using assms fmt_rate_length [of "rx_bps e"] fmt_rate_length [of "tx_bps e"]
    by (simp add: net_entry_def name_ok_def rate_ok_def)
  ultimately show ?thesis by (simp only: entry_ok_def)
qed

text \<open>An event whose payload is an object with one array.\<close>

lemma json_array_event:
  assumes "json_text rfc_ts" "json_text host_json" "json_text event_type" "json_text key"
    "list_all entry_ok es"
  shows \<open>json_value ((event_head rfc_ts host_json event_type @ ''{"'' @ key @ ''":['') @ join_items es @ '']}}'')\<close>
proof -
  have "json_value (''['' @ join_items es @ '']'')"
  proof (cases "es = []")
    case True
    then show ?thesis using empty_array by simp
  next
    case False
    then show ?thesis using assms(5) by (intro array json_join) (auto simp: list_all_iff entry_ok_def)
  qed
  then have "json_value (''{'' @ members [(key, ''['' @ join_items es @ '']'')] @ ''}'')"
    using assms(4) by (intro json_object_list) simp
  from json_event [OF assms(1-3) this] show ?thesis by (simp add: member_def quoted_text_def)
qed

lemma host_text_ok: "json_text (host_text cfg gethostname) \<and> length (host_text cfg gethostname) < 256"
proof -
  obtain h where h: "host_text cfg gethostname =
      cstr (the (json_escape_string (Some h) (Some (replicate 256 NUL)) 256))"
    by (simp add: host_text_def resolve_event_host_def Let_def)
  from escape_result [of 256 h "replicate 256 NUL"] obtain k where
    "host_text cfg gethostname = escape (take k h)" "length (escape (take k h)) < 256"
    unfolding h by auto
  then show ?thesis by simp
qed

text \<open>Bounds on the rates the collectors compute.\<close>

lemma d_of_u64_le: "d_of_u64 v \<le> 2 ^ 64"
proof -
  have "rnd (1 * 2 powi 64) = rnd 1 * 2 powi 64" by (rule rnd_scale)
  then have "rnd (2 ^ 64) = 2 ^ 64" by simp
  moreover have "unat v \<le> 2 ^ 64" using unsigned_less [of v, where ?'a = nat] by simp
  then have "(of_nat (unat v) :: rat) \<le> of_nat (2 ^ 64)" by (simp only: of_nat_le_iff)
  then have "rnd (of_nat (unat v)) \<le> rnd (2 ^ 64)" by (intro rnd_mono) simp
  ultimately show ?thesis by (simp add: d_of_u64_def)
qed

lemma rnd_le_73: "x \<le> 2 ^ 73 \<Longrightarrow> rnd x \<le> 2 ^ 73"
proof -
  assume "x \<le> 2 ^ 73"
  then have "rnd x \<le> rnd (1 * 2 powi 73)" by (intro rnd_mono) simp
  then show ?thesis by (simp only: rnd_scale rnd_1) simp
qed

lemma d_of_int_ge_1: "0 < iv \<Longrightarrow> 1 \<le> d_of_int iv"
  using rnd_mono [of 1 "of_int iv"] by (simp add: d_of_int_def)

lemma rate_ok_div:
  assumes "0 \<le> x" "x \<le> 2 ^ 73" "0 < iv"
  shows "rate_ok (d_div x (d_of_int iv))"
proof -
  have "x / d_of_int iv \<le> x / 1"
    using assms d_of_int_ge_1 [OF assms(3)] by (intro divide_left_mono) auto
  then have "x / d_of_int iv \<le> 2 ^ 73" using assms(2) by simp
  moreover have "0 \<le> x / d_of_int iv" using assms(1) d_of_int_ge_1 [OF assms(3)] by simp
  ultimately show ?thesis using rnd_le_73 [of "x / d_of_int iv"] by (simp add: rate_ok_def d_div_def)
qed

lemma net_rate_ok: "0 < iv \<Longrightarrow> rate_ok (d_div (d_of_u64 v) (d_of_int iv))"
  using d_of_u64_le [of v] by (intro rate_ok_div) auto

lemma disk_rate_ok: "0 < iv \<Longrightarrow> rate_ok (d_div (d_mul (d_of_u64 v) 512) (d_of_int iv))"
proof (rule rate_ok_div)
  have "d_of_u64 v * 512 \<le> 2 ^ 73" using d_of_u64_le [of v] by simp
  then show "d_mul (d_of_u64 v) 512 \<le> 2 ^ 73" unfolding d_mul_def by (rule rnd_le_73)
  show "0 \<le> d_mul (d_of_u64 v) 512" by (simp add: d_mul_def)
qed

lemma disk_entries_ok:
  assumes "disk_compute_stats (Some prev) (Some cur) iv = Some rs" "length cur \<le> 32"
    "\<forall>c \<in> set cur. name_ok (dc_name c)"
  shows "list_all entry_ok (map disk_entry rs)"
proof -
  have len: "length cur \<le> MAX_DISKS" using assms(2) by (simp add: MAX_DISKS_def)
  have "entry_ok (disk_entry r)" if "r \<in> set rs" for r
  proof -
    note e = disk_rates.entries [OF assms(1) len]
    obtain c p where "c \<in> set cur" "r = disk_rate p c iv"
      using bspec [OF conjunct2 [OF conjunct2 [OF e]] \<open>r \<in> set rs\<close>] by auto
    with conjunct1 [OF e] show ?thesis
      using assms(3) disk_rate_ok by (intro disk_entry_ok) (simp_all add: disk_rate_def Let_def name_ok_def)
  qed
  then show ?thesis by (simp add: list_all_iff)
qed

lemma net_entries_ok:
  assumes "net_compute_stats (Some prev) (Some cur) iv = Some rs" "length cur \<le> 32"
    "\<forall>c \<in> set cur. name_ok (nc_name c)"
  shows "list_all entry_ok (map net_entry rs)"
proof -
  have len: "length cur \<le> MAX_INTERFACES" using assms(2) by (simp add: MAX_INTERFACES_def)
  have "entry_ok (net_entry r)" if "r \<in> set rs" for r
  proof -
    note e = net_rates.entries [OF assms(1) len]
    obtain c p where "c \<in> set cur" "r = net_rate p c iv"
      using bspec [OF conjunct2 [OF conjunct2 [OF e]] \<open>r \<in> set rs\<close>] by auto
    with conjunct1 [OF e] show ?thesis
      using assms(3) net_rate_ok by (intro net_entry_ok) (simp_all add: net_rate_def Let_def name_ok_def)
  qed
  then show ?thesis by (simp add: list_all_iff)
qed

lemma list_all_take: "list_all P xs \<Longrightarrow> list_all P (take k xs)"
  by (auto simp: list_all_iff dest: in_set_takeD)

section \<open>Properties\<close>

text \<open>The two lifecycle events are complete, well-formed JSON: the 512-byte buffer never cuts
  them, for any host and timestamp text the caller's buffers can hold.\<close>

lemma lifecycle_events_json:
  assumes "head_ok rfc_ts host_json"
  shows "json_value (warming_up_event rfc_ts host_json) \<and> json_value (ready_event rfc_ts host_json)"
proof -
  have e: "json_value (lifecycle_event t rfc_ts host_json)" if "json_text t" "length t \<le> 40" for t
  proof -
    let ?s = "event_head rfc_ts host_json t @ ''{}'' @ ''}''"
    have "length ?s < 512" using length_event_head [OF assms, of t] that(2) by simp
    then have "lifecycle_event t rfc_ts host_json = ?s" by (simp add: lifecycle_event_def)
    moreover have "json_value ?s"
      using assms that(1) by (intro json_event) (simp_all add: head_ok_def empty_object)
    ultimately show ?thesis by simp
  qed
  show ?thesis unfolding warming_up_event_def ready_event_def by (intro conjI e) simp_all
qed

text \<open>The CPU, memory and self-metric events are complete, well-formed JSON whatever the
  measured values are: with every 64-bit counter and every percentage between 0 and 100, none is
  cut by its 1024-byte buffer.\<close>

lemma metric_events_json:
  assumes "head_ok rfc_ts host_json" "cpu_compute_stats (Some prev) (Some cur) = Some s"
    "length (cs_cores cur) \<le> 256"
  shows "json_value (cpu_event rfc_ts host_json s) \<and> json_value (memory_event rfc_ts host_json m) \<and>
    json_value (internal_event rfc_ts host_json depth dropped emitted)"
proof (intro conjI)
  have j: "json_text rfc_ts" "json_text host_json" using assms(1) by (simp_all add: head_ok_def)
  have pct: "pct_ok (usage_pct s)" "pct_ok (user_pct s)" "pct_ok (system_pct s)" "pct_ok (idle_pct s)"
    and cores: "length (core_usage_pct s) \<le> 256"
    using assms(2,3) by (auto simp: cpu_compute_stats_def Let_def core_loop_map cpu_pct_ok)
  have f: "length (fmt_fixed 1 x) \<le> 5" if "pct_ok x" for x
    using length_fmt_fixed [of x 100 3 1] that by (simp add: pct_ok_def)
  have c: "length (show_nat (length (core_usage_pct s))) \<le> 3" using cores by (intro length_show_nat) auto
  let ?cpu = "members [(''usage_pct'', fmt_fixed 1 (usage_pct s)), (''user_pct'', fmt_fixed 1 (user_pct s)),
    (''system_pct'', fmt_fixed 1 (system_pct s)), (''idle_pct'', fmt_fixed 1 (idle_pct s)),
    (''core_count'', show_nat (length (core_usage_pct s)))]"
  have "cpu_event rfc_ts host_json s =
      event_head rfc_ts host_json ''system.metrics.cpu'' @ (''{'' @ ?cpu @ ''}'') @ ''}''"
    using f [OF pct(1)] f [OF pct(2)] f [OF pct(3)] f [OF pct(4)] c
      length_event_head [OF assms(1), of "''system.metrics.cpu''"]
    by (simp add: cpu_event_def member_def quoted_text_def)
  moreover have "json_value (event_head rfc_ts host_json ''system.metrics.cpu'' @ (''{'' @ ?cpu @ ''}'') @ ''}'')"
    by (intro json_event j json_object_list) simp_all
  ultimately show "json_value (cpu_event rfc_ts host_json s)" by (simp only:)
  let ?mem = "members [(''mem_total'', llu (mem_total m)), (''mem_available'', llu (mem_available m)),
    (''mem_free'', llu (mem_free m)), (''mem_used'', llu (mem_used m)), (''swap_total'', llu (swap_total m)),
    (''swap_free'', llu (swap_free m)), (''swap_used'', llu (swap_used m))]"
  have "memory_event rfc_ts host_json m =
      event_head rfc_ts host_json ''system.metrics.memory'' @ (''{'' @ ?mem @ ''}'') @ ''}''"
    using length_llu [of "mem_total m"] length_llu [of "mem_available m"] length_llu [of "mem_free m"]
      length_llu [of "mem_used m"] length_llu [of "swap_total m"] length_llu [of "swap_free m"]
      length_llu [of "swap_used m"] length_event_head [OF assms(1), of "''system.metrics.memory''"]
    by (simp add: memory_event_def member_def quoted_text_def del: length_llu)
  moreover have "json_value (event_head rfc_ts host_json ''system.metrics.memory'' @ (''{'' @ ?mem @ ''}'') @ ''}'')"
    by (intro json_event j json_object_list) simp_all
  ultimately show "json_value (memory_event rfc_ts host_json m)" by (simp only:)
  let ?int = "members [(''buffer_depth'', llu depth), (''events_dropped_total'', llu dropped),
    (''events_emitted_total'', llu emitted)]"
  have "internal_event rfc_ts host_json depth dropped emitted =
      event_head rfc_ts host_json ''syswatch.internal'' @ (''{'' @ ?int @ ''}'') @ ''}''"
    using length_llu [of depth] length_llu [of dropped] length_llu [of emitted]
      length_event_head [OF assms(1), of "''syswatch.internal''"]
    by (simp add: internal_event_def member_def quoted_text_def del: length_llu)
  moreover have "json_value (event_head rfc_ts host_json ''syswatch.internal'' @ (''{'' @ ?int @ ''}'') @ ''}'')"
    by (intro json_event j json_object_list) simp_all
  ultimately show "json_value (internal_event rfc_ts host_json depth dropped emitted)" by (simp only:)
qed

lemma disk_event_facts:
  assumes "head_ok rfc_ts host_json" "disk_compute_stats (Some prev) (Some cur) iv = Some rs"
    "length cur \<le> 32" "\<forall>c \<in> set cur. name_ok (dc_name c)"
  shows "\<exists>k \<le> length rs. disk_event rfc_ts host_json rs =
      disk_head rfc_ts host_json @ join_items (map disk_entry (take k rs)) @ '']}}'' \<and>
    json_value (disk_event rfc_ts host_json rs) \<and> length (disk_event rfc_ts host_json rs) < 2048 \<and>
    (k < length rs \<longrightarrow> 1536 \<le> length (disk_head rfc_ts host_json @ join_items (map disk_entry (take k rs))))"
proof -
  let ?es = "map disk_entry rs"
  have es: "list_all entry_ok ?es" using disk_entries_ok [OF assms(2-4)] .
  have "length (disk_head rfc_ts host_json) \<le> 1000"
    using length_event_head [OF assms(1), of "''system.metrics.disk''"] by (simp add: disk_head_def)
  from entries_event_spec [OF es this] obtain k where k: "k \<le> length ?es"
    "disk_event rfc_ts host_json rs = disk_head rfc_ts host_json @ join_items (take k ?es) @ '']}}''"
    "length (disk_event rfc_ts host_json rs) < 2048"
    "k < length ?es \<longrightarrow> 1536 \<le> length (disk_head rfc_ts host_json) + length (join_items (take k ?es))"
    unfolding disk_event_def by blast
  have "json_value (disk_event rfc_ts host_json rs)"
    using json_array_event [of rfc_ts host_json "''system.metrics.disk''" "''disks''" "take k ?es"]
      list_all_take [OF es] assms(1) by (simp add: k(2) disk_head_def head_ok_def)
  with k show ?thesis by (intro exI [of _ k]) (simp add: take_map)
qed

text \<open>C38: Provided that the timestamp and the host text are bodies of JSON strings, without NUL and
  shorter than their buffers of 64 and 256 bytes, that no device name needs escaping (the code
  copies the names as they are) and that there are at most 32 devices with names below 32
  characters: the disk event is complete, well-formed JSON and fits its 2048-byte buffer, as the
  guard 512 bytes before the end never lets an entry be cut. It lists the first disks of the
  statistics, and leaves some out only once 1536 characters are used.\<close>

theorem disk_event_json:
  assumes "head_ok rfc_ts host_json" "disk_compute_stats (Some prev) (Some cur) iv = Some rs"
    "length cur \<le> 32" "\<forall>c \<in> set cur. name_ok (dc_name c)"
  shows "\<exists>k \<le> length rs. disk_event rfc_ts host_json rs =
      disk_head rfc_ts host_json @ join_items (map disk_entry (take k rs)) @ '']}}'' \<and>
    json_value (disk_event rfc_ts host_json rs) \<and> length (disk_event rfc_ts host_json rs) < 2048 \<and>
    (k < length rs \<longrightarrow> 1536 \<le> length (disk_head rfc_ts host_json @ join_items (map disk_entry (take k rs))))"
  by (rule disk_event_facts [OF assms])

lemma network_event_facts:
  assumes "head_ok rfc_ts host_json" "net_compute_stats (Some prev) (Some cur) iv = Some rs"
    "length cur \<le> 32" "\<forall>c \<in> set cur. name_ok (nc_name c)"
  shows "\<exists>k \<le> length rs. network_event rfc_ts host_json rs =
      network_head rfc_ts host_json @ join_items (map net_entry (take k rs)) @ '']}}'' \<and>
    json_value (network_event rfc_ts host_json rs) \<and> length (network_event rfc_ts host_json rs) < 2048 \<and>
    (k < length rs \<longrightarrow> 1536 \<le> length (network_head rfc_ts host_json @ join_items (map net_entry (take k rs))))"
proof -
  let ?es = "map net_entry rs"
  have es: "list_all entry_ok ?es" using net_entries_ok [OF assms(2-4)] .
  have "length (network_head rfc_ts host_json) \<le> 1000"
    using length_event_head [OF assms(1), of "''system.metrics.network''"] by (simp add: network_head_def)
  from entries_event_spec [OF es this] obtain k where k: "k \<le> length ?es"
    "network_event rfc_ts host_json rs = network_head rfc_ts host_json @ join_items (take k ?es) @ '']}}''"
    "length (network_event rfc_ts host_json rs) < 2048"
    "k < length ?es \<longrightarrow> 1536 \<le> length (network_head rfc_ts host_json) + length (join_items (take k ?es))"
    unfolding network_event_def by blast
  have "json_value (network_event rfc_ts host_json rs)"
    using json_array_event [of rfc_ts host_json "''system.metrics.network''" "''interfaces''" "take k ?es"]
      list_all_take [OF es] assms(1) by (simp add: k(2) network_head_def head_ok_def)
  with k show ?thesis by (intro exI [of _ k]) (simp add: take_map)
qed

text \<open>The network event is complete, well-formed JSON and fits its 2048-byte buffer, provided
  that the interface names need no escaping: they are copied into the text as they are.\<close>

theorem network_event_json:
  assumes "head_ok rfc_ts host_json" "net_compute_stats (Some prev) (Some cur) iv = Some rs"
    "length cur \<le> 32" "\<forall>c \<in> set cur. name_ok (nc_name c)"
  shows "\<exists>k \<le> length rs. network_event rfc_ts host_json rs =
      network_head rfc_ts host_json @ join_items (map net_entry (take k rs)) @ '']}}'' \<and>
    json_value (network_event rfc_ts host_json rs) \<and> length (network_event rfc_ts host_json rs) < 2048 \<and>
    (k < length rs \<longrightarrow> 1536 \<le> length (network_head rfc_ts host_json @ join_items (map net_entry (take k rs))))"
  by (rule network_event_facts [OF assms])

text \<open>The name an event reports: the configured one, else what the system says, else a
  placeholder.\<close>

definition reported_host :: "syswatch_config \<Rightarrow> cstring option \<Rightarrow> cstring" where
  "reported_host cfg gethostname =
     (if host_override cfg \<noteq> [] then take 127 (host_override cfg)
      else case gethostname of Some h \<Rightarrow> h | None \<Rightarrow> ''unknown'')"

lemma host_text_escape:
  "host_text cfg gethostname =
    cstr (the (json_escape_string (Some (reported_host cfg gethostname)) (Some (replicate 256 NUL)) 256))"
  by (simp add: host_text_def resolve_event_host_def reported_host_def copy_trunc_def Let_def split: option.split)

text \<open>C39: The host text of every event is the escape of the longest prefix of the host name that
  fits the 256-byte buffer, cut between two characters, so a JSON parser reads that prefix back.
  The name is the configured one when it is not empty (its buffer holds 127 characters), else the
  system's, else ''unknown''; nothing is assumed of its characters.\<close>

theorem event_host_escaped:
  "\<exists>k \<le> length (reported_host cfg gethostname).
    host_text cfg gethostname = escape (take k (reported_host cfg gethostname)) \<and>
    json_decode (host_text cfg gethostname) = Some (take k (reported_host cfg gethostname)) \<and>
    length (host_text cfg gethostname) < 256 \<and>
    (k < length (reported_host cfg gethostname) \<longrightarrow>
      256 \<le> length (escape (take (Suc k) (reported_host cfg gethostname))))"
  using escape_result [of 256 "reported_host cfg gethostname" "replicate 256 NUL"]
  unfolding host_text_escape by (metis decode_escape zero_less_numeral)

section \<open>Examples\<close>

definition demo_rfc :: cstring where
  "demo_rfc = ''2026-01-02T03:04:05+00:00''"

lemma demo_head_ok: "head_ok demo_rfc ''box''"
proof -
  have "json_text demo_rfc" "json_text ''box''" by code_simp+
  then show ?thesis by (simp add: head_ok_def demo_rfc_def)
qed

definition demo_disk_rates :: disk_stats where
  "demo_disk_rates = the (disk_compute_stats (Some demo_disks) (Some demo_disks) 2)"

definition demo_net_rates :: net_stats where
  "demo_net_rates = the (net_compute_stats (Some demo_net) (Some demo_net) 2)"

lemma demo_names: "\<forall>c \<in> set demo_disks. name_ok (dc_name c)" "\<forall>c \<in> set demo_net. name_ok (nc_name c)"
proof -
  have "json_text ''sda''" "json_text ''sda1''" "json_text ''nvme0n1''" "json_text ''lo''" "json_text ''eth0''"
    by code_simp+
  then show "\<forall>c \<in> set demo_disks. name_ok (dc_name c)" "\<forall>c \<in> set demo_net. name_ok (nc_name c)"
    by (simp_all add: demo_disks_def demo_net_def name_ok_def)
qed

theorem disk_event_json_witness:
  "\<exists>k \<le> length demo_disk_rates. disk_event demo_rfc ''box'' demo_disk_rates =
      disk_head demo_rfc ''box'' @ join_items (map disk_entry (take k demo_disk_rates)) @ '']}}'' \<and>
    json_value (disk_event demo_rfc ''box'' demo_disk_rates) \<and>
    length (disk_event demo_rfc ''box'' demo_disk_rates) < 2048 \<and>
    (k < length demo_disk_rates \<longrightarrow>
      1536 \<le> length (disk_head demo_rfc ''box'' @ join_items (map disk_entry (take k demo_disk_rates))))"
proof (rule disk_event_json [OF demo_head_ok])
  show "disk_compute_stats (Some demo_disks) (Some demo_disks) 2 = Some demo_disk_rates"
    by (simp add: demo_disk_rates_def disk_compute_stats_def)
  show "length demo_disks \<le> 32" by (simp add: demo_disks_def)
qed (rule demo_names)

theorem network_event_json_witness:
  "\<exists>k \<le> length demo_net_rates. network_event demo_rfc ''box'' demo_net_rates =
      network_head demo_rfc ''box'' @ join_items (map net_entry (take k demo_net_rates)) @ '']}}'' \<and>
    json_value (network_event demo_rfc ''box'' demo_net_rates) \<and>
    length (network_event demo_rfc ''box'' demo_net_rates) < 2048 \<and>
    (k < length demo_net_rates \<longrightarrow>
      1536 \<le> length (network_head demo_rfc ''box'' @ join_items (map net_entry (take k demo_net_rates))))"
proof (rule network_event_json [OF demo_head_ok])
  show "net_compute_stats (Some demo_net) (Some demo_net) 2 = Some demo_net_rates"
    by (simp add: demo_net_rates_def net_compute_stats_def)
  show "length demo_net \<le> 32" by (simp add: demo_net_def)
qed (rule demo_names)

lemma short_prefix:
  "k \<le> length s \<Longrightarrow> k < length s \<longrightarrow> n \<le> length (escape (take (Suc k) s)) \<Longrightarrow> 6 * length s < n \<Longrightarrow> take k s = s"
  using length_escape [of "take (Suc k) s"] by (cases "k < length s") auto

definition demo_host :: cstring where
  "demo_host = ''a'' @ [DQUOTE, BSLASH] @ ''b''"

text \<open>A configured name with characters to escape; and, without one, a system name of quotes only,
  of which 127 fit.\<close>

theorem event_host_escaped_witness:
  "host_text (init_default_config\<lparr>host_override := demo_host\<rparr>) None =
     ''a'' @ [BSLASH, DQUOTE, BSLASH, BSLASH] @ ''b'' \<and>
   host_text init_default_config (Some (replicate 200 DQUOTE)) = concat (replicate 127 [BSLASH, DQUOTE]) \<and>
   host_text init_default_config None = ''unknown''"
proof -
  have quotes: "length (escape (replicate k DQUOTE)) = 2 * k" "escape (replicate k DQUOTE) = concat (replicate k [BSLASH, DQUOTE])" for k
    by (induction k) (simp_all add: esc_char_def replacement_def)
  have esc: "escape demo_host = ''a'' @ [BSLASH, DQUOTE, BSLASH, BSLASH] @ ''b''" "escape ''unknown'' = ''unknown''"
    by code_simp+
  let ?c1 = "init_default_config\<lparr>host_override := demo_host\<rparr>" and ?c2 = init_default_config
  have h: "reported_host ?c1 None = demo_host" "reported_host ?c2 None = ''unknown''"
    "reported_host ?c2 (Some (replicate 200 DQUOTE)) = replicate 200 DQUOTE"
    by (simp_all add: reported_host_def demo_host_def init_default_config_def zero_config_def)
  obtain k where k: "k \<le> length demo_host" "host_text ?c1 None = escape (take k demo_host)"
    "k < length demo_host \<longrightarrow> 256 \<le> length (escape (take (Suc k) demo_host))"
    using event_host_escaped [of ?c1 None] unfolding h by blast
  obtain m where "m \<le> length (replicate 200 DQUOTE)"
    "host_text ?c2 (Some (replicate 200 DQUOTE)) = escape (take m (replicate 200 DQUOTE))"
    "length (host_text ?c2 (Some (replicate 200 DQUOTE))) < 256"
    "m < length (replicate 200 DQUOTE) \<longrightarrow> 256 \<le> length (escape (take (Suc m) (replicate 200 DQUOTE)))"
    using event_host_escaped [of ?c2 "Some (replicate 200 DQUOTE)"] unfolding h by blast
  then have m: "m \<le> 200" "host_text ?c2 (Some (replicate 200 DQUOTE)) = escape (replicate m DQUOTE)"
    "length (escape (replicate m DQUOTE)) < 256" "m < 200 \<longrightarrow> 256 \<le> length (escape (replicate (Suc m) DQUOTE))"
    unfolding take_replicate length_replicate by (simp_all add: min_def del: replicate_Suc)
  obtain n where n: "n \<le> length ''unknown''" "host_text ?c2 None = escape (take n ''unknown'')"
    "n < length ''unknown'' \<longrightarrow> 256 \<le> length (escape (take (Suc n) ''unknown''))"
    using event_host_escaped [of ?c2 None] unfolding h by blast
  have len: "length demo_host = 4" "length ''unknown'' = 7" by (simp_all add: demo_host_def)
  have "host_text ?c1 None = escape demo_host" "host_text ?c2 None = escape ''unknown''"
    using short_prefix [OF k(1,3)] short_prefix [OF n(1,3)] unfolding k(2) n(2) len by simp_all
  moreover have "m = 127" using m(1,3,4) unfolding quotes(1) by auto
  then have "host_text ?c2 (Some (replicate 200 DQUOTE)) = concat (replicate 127 [BSLASH, DQUOTE])"
    using m(2) quotes(2) [of 127] by (simp only:)
  ultimately show ?thesis using esc by simp
qed

end
