(* ===== verification/Fifo_Interface.thy ===== *)
theory Fifo_Interface
  imports Main "HOL-Library.Sublist"
begin

text \<open>
  The contract between the event queue and its two clients, the collector (puts) and the
  delivery thread (gets), and what follows from it for any interleaving of their calls.

  \<open>drop_oldest_fifo\<close> is the ordering contract: a put appends, losing the oldest message when
  the buffer is full; a get removes a prefix. \<open>counted_fifo\<close> extends it with the two counters
  the queue keeps. A schedule is a list of calls; \<open>run_fifo\<close> executes it and collects
  what the gets delivered.
\<close>

datatype ('c, 'e) fifo_op = Put 'c 'e | Get nat

fun puts_of :: "('c, 'e) fifo_op list \<Rightarrow> 'e list" where
  "puts_of [] = []"
| "puts_of (Put c e # ops) = e # puts_of ops"
| "puts_of (Get n # ops) = puts_of ops"

fun run_fifo ::
  "('c \<Rightarrow> 'e \<Rightarrow> 'q \<Rightarrow> 'q) \<Rightarrow> (nat \<Rightarrow> 'q \<Rightarrow> 'e list \<times> 'q) \<Rightarrow> ('c, 'e) fifo_op list \<Rightarrow> 'q
     \<Rightarrow> 'e list \<times> 'q" where
  "run_fifo put get [] q = ([], q)"
| "run_fifo put get (Put c e # ops) q = run_fifo put get ops (put c e q)"
| "run_fifo put get (Get n # ops) q =
     (let (es, q1) = get n q; (ds, q2) = run_fifo put get ops q1 in (es @ ds, q2))"

text \<open>The abstract put: at most \<open>cap\<close> messages, the oldest one gives way.\<close>

definition push_bounded :: "nat \<Rightarrow> 'e \<Rightarrow> 'e list \<Rightarrow> 'e list" where
  "push_bounded cap e xs = (if length xs = cap then tl xs else xs) @ [e]"

lemma length_push_bounded:
  "0 < cap \<Longrightarrow> length xs \<le> cap \<Longrightarrow>
     length (push_bounded cap e xs) = (if length xs = cap then cap else Suc (length xs))"
  by (auto simp: push_bounded_def)

lemma subseq_tl: "subseq (tl xs) xs"
  by (cases xs) auto

lemma subseq_push_bounded: "subseq (push_bounded cap e xs @ ys) (xs @ e # ys)"
  by (auto simp: push_bounded_def subseq_tl intro: list_emb_append_mono)

lemma suffix_push_bounded: "suffix (push_bounded cap e xs @ ys) (xs @ e # ys)"
  by (cases xs) (auto simp: push_bounded_def suffix_def)

locale drop_oldest_fifo =
  fixes cap :: nat
    and inv :: "'q \<Rightarrow> bool"
    and contents :: "'q \<Rightarrow> 'e list"
    and ok :: "'e \<Rightarrow> bool"
    and put :: "'c \<Rightarrow> 'e \<Rightarrow> 'q \<Rightarrow> 'q"
    and get :: "nat \<Rightarrow> 'q \<Rightarrow> 'e list \<times> 'q"
  assumes cap_pos: "0 < cap"
    and bounded: "inv q \<Longrightarrow> length (contents q) \<le> cap"
    and inv_put: "inv q \<Longrightarrow> ok e \<Longrightarrow> inv (put c e q)"
    and contents_put: "inv q \<Longrightarrow> ok e \<Longrightarrow> contents (put c e q) = push_bounded cap e (contents q)"
    and inv_get: "inv q \<Longrightarrow> inv (snd (get n q))"
    and fst_get: "inv q \<Longrightarrow> fst (get n q) = take n (contents q)"
    and contents_get: "inv q \<Longrightarrow> contents (snd (get n q)) = drop n (contents q)"
begin

lemma get_split:
  assumes "inv q" "get n q = (es, q1)"
  shows "es = take n (contents q)" "contents q1 = drop n (contents q)" "inv q1"
    and "contents q = es @ contents q1"
  using fst_get contents_get inv_get assms by (metis fst_conv snd_conv append_take_drop_id)+

lemma run_inv: "inv q \<Longrightarrow> list_all ok (puts_of ops) \<Longrightarrow> inv (snd (run_fifo put get ops q))"
proof (induction ops arbitrary: q)
  case Nil
  then show ?case by simp
next
  case (Cons op ops)
  show ?case
  proof (cases op)
    case (Put c e)
    with Cons show ?thesis by (simp add: inv_put)
  next
    case (Get n)
    with Cons.IH [of "snd (get n q)"] Cons.prems show ?thesis
      by (auto simp: inv_get split: prod.splits)
  qed
qed

text \<open>One call at a time: what was delivered so far, followed by what is queued, stays within
  what was sent.\<close>

lemma conserve_put:
  assumes "inv q" "ok e" "subseq (ds @ contents q) sent"
  shows "subseq (ds @ contents (put c e q)) (sent @ [e])"
proof -
  have "subseq (push_bounded cap e (contents q)) (contents q @ [e])"
    using subseq_push_bounded [of cap e "contents q" "[]"] by simp
  then have "subseq (ds @ contents (put c e q)) ((ds @ contents q) @ [e])"
    using assms(1,2) by (simp add: contents_put list_emb_append_mono)
  also have "subseq \<dots> (sent @ [e])" using assms(3) by (rule list_emb_append_mono) simp
  finally show ?thesis .
qed

lemma conserve_get: "inv q \<Longrightarrow> ds @ fst (get n q) @ contents (snd (get n q)) = ds @ contents q"
  by (simp add: fst_get contents_get)

text \<open>Nothing is duplicated, reordered or invented: what was delivered, followed by what is
  still queued, is a subsequence of what was put.\<close>

lemma run_subseq:
  "inv q \<Longrightarrow> list_all ok (puts_of ops) \<Longrightarrow> run_fifo put get ops q = (ds, q') \<Longrightarrow>
     subseq (ds @ contents q') (contents q @ puts_of ops)"
proof (induction ops arbitrary: q ds)
  case Nil
  then show ?case by simp
next
  case (Cons op ops)
  show ?case
  proof (cases op)
    case (Put c e)
    with Cons have "subseq (ds @ contents q') (contents (put c e q) @ puts_of ops)"
      by (auto simp: inv_put)
    also have "subseq \<dots> (contents q @ e # puts_of ops)"
      using Cons.prems Put by (simp add: contents_put subseq_push_bounded)
    finally show ?thesis using Put by simp
  next
    case (Get n)
    obtain es q1 where g: "get n q = (es, q1)" by fastforce
    obtain ds1 where r: "run_fifo put get ops q1 = (ds1, q')" and ds: "ds = es @ ds1"
      using Cons.prems(3) Get g by (auto split: prod.splits)
    note es = get_split [OF Cons.prems(1) g]
    have "subseq (ds1 @ contents q') (contents q1 @ puts_of ops)"
      using Cons.IH [OF es(3) _ r] Cons.prems(2) Get by simp
    then have "subseq (es @ ds1 @ contents q') (es @ contents q1 @ puts_of ops)"
      by (rule list_emb_append_mono [OF subseq_order.order_refl])
    then show ?thesis using ds es(4) Get by simp
  qed
qed

text \<open>The newest messages survive: the queue always holds a suffix of what was put.\<close>

lemma run_suffix:
  "inv q \<Longrightarrow> list_all ok (puts_of ops) \<Longrightarrow>
     suffix (contents (snd (run_fifo put get ops q))) (contents q @ puts_of ops)"
proof (induction ops arbitrary: q)
  case Nil
  then show ?case by simp
next
  case (Cons op ops)
  show ?case
  proof (cases op)
    case (Put c e)
    with Cons have "suffix (contents (snd (run_fifo put get ops (put c e q))))
        (contents (put c e q) @ puts_of ops)"
      by (auto simp: inv_put)
    moreover have "suffix (contents (put c e q) @ puts_of ops) (contents q @ e # puts_of ops)"
      using Cons.prems Put by (simp add: contents_put suffix_push_bounded)
    ultimately show ?thesis using Put by (auto intro: suffix_order.trans)
  next
    case (Get n)
    let ?q1 = "snd (get n q)"
    have "suffix (contents (snd (run_fifo put get ops ?q1))) (contents ?q1 @ puts_of ops)"
      using Cons Get by (auto simp: inv_get)
    moreover have "suffix (contents ?q1 @ puts_of ops) (contents q @ puts_of ops)"
      using Cons.prems(1) by (simp add: contents_get suffix_drop)
    ultimately show ?thesis
      using Get by (auto intro: suffix_order.trans split: prod.splits)
  qed
qed

text \<open>As long as the puts fit, the queue is an exact FIFO.\<close>

lemma run_exact:
  "inv q \<Longrightarrow> list_all ok (puts_of ops) \<Longrightarrow> length (contents q @ puts_of ops) \<le> cap \<Longrightarrow>
     run_fifo put get ops q = (ds, q') \<Longrightarrow> ds @ contents q' = contents q @ puts_of ops"
proof (induction ops arbitrary: q ds)
  case Nil
  then show ?case by simp
next
  case (Cons op ops)
  show ?case
  proof (cases op)
    case (Put c e)
    with Cons.prems have "contents (put c e q) = contents q @ [e]"
      by (auto simp: contents_put push_bounded_def)
    with Cons.IH [of "put c e q" ds] Cons.prems Put show ?thesis by (simp add: inv_put)
  next
    case (Get n)
    obtain es q1 where g: "get n q = (es, q1)" by fastforce
    obtain ds1 where r: "run_fifo put get ops q1 = (ds1, q')" and ds: "ds = es @ ds1"
      using Cons.prems(4) Get g by (auto split: prod.splits)
    note es = get_split [OF Cons.prems(1) g]
    have "ds1 @ contents q' = contents q1 @ puts_of ops"
      using Cons.IH [OF es(3) _ _ r] Cons.prems Get es(1,2) by simp
    then show ?thesis using ds es(4) Get by simp
  qed
qed

text \<open>With no get in between, exactly the last \<open>cap\<close> messages remain.\<close>

lemma puts_keep_last:
  "inv q \<Longrightarrow> list_all ok es \<Longrightarrow>
     contents (snd (run_fifo put get (map (Put c) es) q)) =
     drop (length (contents q) + length es - cap) (contents q @ es)"
proof (induction es arbitrary: q)
  case Nil
  with bounded [of q] show ?case by simp
next
  case (Cons e es)
  let ?p = "put c e q"
  have p: "contents ?p = push_bounded cap e (contents q)" "inv ?p"
    using Cons.prems by (simp_all add: contents_put inv_put)
  have "contents (snd (run_fifo put get (map (Put c) es) ?p)) =
      drop (length (contents ?p) + length es - cap) (contents ?p @ es)"
    using Cons p(2) by simp
  also have "\<dots> = drop (length (contents q) + length (e # es) - cap) (contents q @ e # es)"
  proof (cases "length (contents q) = cap")
    case True
    then obtain x xs where "contents q = x # xs" using cap_pos by (cases "contents q") auto
    with True p show ?thesis by (simp add: push_bounded_def Suc_diff_le)
  next
    case False
    then have "contents ?p @ es = contents q @ e # es" using p by (simp add: push_bounded_def)
    moreover have "length (contents ?p) = Suc (length (contents q))"
      using False p by (simp add: push_bounded_def)
    ultimately show ?thesis by simp
  qed
  finally show ?case by simp
qed

end

locale counted_fifo = drop_oldest_fifo cap inv contents ok put get
  for cap and inv :: "'q \<Rightarrow> bool" and contents :: "'q \<Rightarrow> 'e list" and ok :: "'e \<Rightarrow> bool"
    and put :: "'c \<Rightarrow> 'e \<Rightarrow> 'q \<Rightarrow> 'q" and get :: "nat \<Rightarrow> 'q \<Rightarrow> 'e list \<times> 'q" +
  fixes dropped :: "'q \<Rightarrow> 'w::comm_ring_1"
    and emitted :: "'q \<Rightarrow> 'w"
  assumes dropped_put: "inv q \<Longrightarrow> ok e \<Longrightarrow>
      dropped (put c e q) = dropped q + (if length (contents q) = cap then 1 else 0)"
    and emitted_put: "inv q \<Longrightarrow> ok e \<Longrightarrow> emitted (put c e q) = emitted q + 1"
    and dropped_get: "inv q \<Longrightarrow> dropped (snd (get n q)) = dropped q"
    and emitted_get: "inv q \<Longrightarrow> emitted (snd (get n q)) = emitted q"
begin

lemma balance_put:
  assumes "inv q" "ok e"
  shows "dropped (put c e q) + of_nat (length (contents (put c e q))) =
    dropped q + of_nat (length (contents q)) + 1"
  using assms length_push_bounded [OF cap_pos bounded, of q e]
  by (auto simp: dropped_put contents_put)

text \<open>The books balance over any schedule (modulo the width of the counters): every message
  put was delivered, dropped, or is still queued.\<close>

lemma run_balance:
  "inv q \<Longrightarrow> list_all ok (puts_of ops) \<Longrightarrow> run_fifo put get ops q = (ds, q') \<Longrightarrow>
     emitted q' = emitted q + of_nat (length (puts_of ops)) \<and>
     dropped q' + of_nat (length ds) + of_nat (length (contents q')) =
     dropped q + of_nat (length (contents q)) + of_nat (length (puts_of ops))"
proof (induction ops arbitrary: q ds)
  case Nil
  then show ?case by simp
next
  case (Cons op ops)
  show ?case
  proof (cases op)
    case (Put c e)
    let ?p = "put c e q"
    have "dropped ?p + of_nat (length (contents ?p)) =
        dropped q + of_nat (length (contents q)) + 1"
      using Cons.prems Put by (simp add: balance_put)
    with Cons.IH [of ?p ds] Cons.prems Put show ?thesis
      by (simp add: inv_put emitted_put algebra_simps)
  next
    case (Get n)
    obtain es q1 where g: "get n q = (es, q1)" by fastforce
    obtain ds1 where r: "run_fifo put get ops q1 = (ds1, q')" and ds: "ds = es @ ds1"
      using Cons.prems(3) Get g by (auto split: prod.splits)
    note es = get_split [OF Cons.prems(1) g]
    have same: "dropped q1 = dropped q" "emitted q1 = emitted q"
      using dropped_get emitted_get Cons.prems(1) g by (metis snd_conv)+
    have "length es + length (contents q1) = length (contents q)"
      using es(4) by simp
    then have "(of_nat (length (contents q)) :: 'w) = of_nat (length es) + of_nat (length (contents q1))"
      by (metis of_nat_add)
    with Cons.IH [OF es(3) _ r] Cons.prems(2) Get same ds show ?thesis
      by (auto simp: algebra_simps)
  qed
qed

end

end
