(* ===== verification/Event_Queue.thy ===== *)
theory Event_Queue
  imports C_Lib Fifo_Interface
begin

text \<open>
  The bounded event queue of \<^verbatim>\<open>src/queue.c\<close>: a ring of \<^verbatim>\<open>MAX_QUEUE_DEPTH\<close> entries with
  a drop-oldest policy, shared by the collector (producer) and the delivery thread (consumer).

  The record \<open>event_queue\<close> has the fields of \<^verbatim>\<open>event_queue_t\<close> but for the mutex and the
  condition variable: every operation runs in one critical section, so it is one atomic step
  on the record. The array \<^verbatim>\<open>entries\<close> is a function of the index, which \<open>queue_inv\<close>
  bounds. A pointer that may be NULL is an \<open>option\<close>. What \<^verbatim>\<open>malloc\<close>,
  \<^verbatim>\<open>pthread_mutex_init\<close>, \<^verbatim>\<open>pthread_cond_init\<close> and \<^verbatim>\<open>clock_gettime\<close> return is an
  argument.

  Clients see a queue through the locale \<open>drop_oldest_fifo\<close>: a list of messages that a put
  extends at the end (losing its first message when full) and a get shortens at the front.
\<close>

section \<open>State\<close>

definition MAX_QUEUE_DEPTH :: nat where "MAX_QUEUE_DEPTH = 10000"
definition MAX_EVENT_SIZE :: nat where "MAX_EVENT_SIZE = 4096"

record event_queue_entry =
  json_data :: "char list" \<comment> \<open>the array \<^verbatim>\<open>char json_data[MAX_EVENT_SIZE]\<close>\<close>
  json_len :: nat
  enqueue_time :: timespec

record event_queue =
  entries :: "nat \<Rightarrow> event_queue_entry"
  q_head :: nat
  q_tail :: nat
  q_count :: nat
  dropped_count :: u64
  emitted_count :: u64

section \<open>Operations\<close>

text \<open>\<open>mem\<close> is what \<^verbatim>\<open>malloc\<close> returned: NULL, or memory with arbitrary contents.\<close>

definition queue_create :: "event_queue option \<Rightarrow> rc \<Rightarrow> rc \<Rightarrow> event_queue option" where
  "queue_create mem mutex_rc cond_rc =
     (case mem of
        None \<Rightarrow> None
      | Some q \<Rightarrow>
          let q = q\<lparr>q_head := 0, q_tail := 0, q_count := 0, dropped_count := 0, emitted_count := 0\<rparr>
          in if mutex_rc \<noteq> 0 then None else if cond_rc \<noteq> 0 then None else Some q)"

text \<open>The critical section of \<^verbatim>\<open>queue_enqueue\<close>: make room, then store at the tail.\<close>

definition drop_oldest :: "event_queue \<Rightarrow> event_queue" where
  "drop_oldest q =
     (if q_count q \<ge> MAX_QUEUE_DEPTH
      then q\<lparr>q_head := (q_head q + 1) mod MAX_QUEUE_DEPTH, q_count := q_count q - 1,
             dropped_count := dropped_count q + 1\<rparr>
      else q)"

definition fill_entry ::
  "timespec option \<Rightarrow> char list \<Rightarrow> nat \<Rightarrow> event_queue_entry \<Rightarrow> event_queue_entry" where
  "fill_entry now data len e =
     e\<lparr>json_data := (take len data @ drop len (json_data e))[len := NUL],
       json_len := len,
       enqueue_time := (case now of Some t \<Rightarrow> t | None \<Rightarrow> \<lparr>tv_sec = 0, tv_nsec = 0\<rparr>)\<rparr>"

definition store_tail :: "timespec option \<Rightarrow> char list \<Rightarrow> nat \<Rightarrow> event_queue \<Rightarrow> event_queue" where
  "store_tail now data len q =
     q\<lparr>entries := (entries q)(q_tail q := fill_entry now data len (entries q (q_tail q))),
       q_tail := (q_tail q + 1) mod MAX_QUEUE_DEPTH,
       q_count := q_count q + 1,
       emitted_count := emitted_count q + 1\<rparr>"

definition enqueue_locked ::
  "timespec option \<Rightarrow> char list \<Rightarrow> nat \<Rightarrow> event_queue \<Rightarrow> event_queue" where
  "enqueue_locked now data len q = store_tail now data len (drop_oldest q)"

definition queue_enqueue ::
  "timespec option \<Rightarrow> event_queue option \<Rightarrow> char list option \<Rightarrow> nat \<Rightarrow> rc \<times> event_queue option"
  where
  "queue_enqueue now qp datap len =
     (case (qp, datap) of
        (Some q, Some data) \<Rightarrow>
          if len = 0 \<or> len \<ge> MAX_EVENT_SIZE then (-1, Some q)
          else (0, Some (enqueue_locked now data len q))
      | _ \<Rightarrow> (-1, qp))"

text \<open>The loop of \<^verbatim>\<open>queue_dequeue_batch\<close>; \<open>n\<close> is \<^verbatim>\<open>max_count - count\<close>.\<close>

fun dequeue_loop :: "nat \<Rightarrow> event_queue \<Rightarrow> event_queue_entry list \<times> event_queue" where
  "dequeue_loop n q =
     (if 0 < n \<and> q_count q > 0
      then let e = entries q (q_head q);
               (es, q') = dequeue_loop (n - 1)
                 (q\<lparr>q_head := (q_head q + 1) mod MAX_QUEUE_DEPTH, q_count := q_count q - 1\<rparr>)
           in (e # es, q')
      else ([], q))"

declare dequeue_loop.simps [simp del]

text \<open>\<open>outp\<close> is the caller's array and \<open>out_countp\<close> the caller's counter.\<close>

definition queue_dequeue_batch ::
  "event_queue option \<Rightarrow> event_queue_entry list option \<Rightarrow> int \<Rightarrow> int option
     \<Rightarrow> rc \<times> event_queue option \<times> event_queue_entry list option \<times> int option" where
  "queue_dequeue_batch qp outp max_count out_countp =
     (case (qp, outp, out_countp) of
        (Some q, Some out, Some _) \<Rightarrow>
          if max_count \<le> 0 then (-1, qp, outp, out_countp)
          else let (es, q') = dequeue_loop (nat max_count) q
               in (0, Some q', Some (es @ drop (length es) out), Some (int (length es)))
      | _ \<Rightarrow> (-1, qp, outp, out_countp))"

definition queue_size :: "event_queue option \<Rightarrow> int" where
  "queue_size qp = (case qp of None \<Rightarrow> -1 | Some q \<Rightarrow> int (q_count q))"

definition queue_dropped_count :: "event_queue option \<Rightarrow> u64" where
  "queue_dropped_count qp = (case qp of None \<Rightarrow> 0 | Some q \<Rightarrow> dropped_count q)"

section \<open>Invariant and abstraction\<close>

definition queue_inv :: "event_queue \<Rightarrow> bool" where
  "queue_inv q \<longleftrightarrow>
     q_head q < MAX_QUEUE_DEPTH \<and> q_count q \<le> MAX_QUEUE_DEPTH \<and>
     q_tail q = (q_head q + q_count q) mod MAX_QUEUE_DEPTH \<and>
     (\<forall>i. length (json_data (entries q i)) = MAX_EVENT_SIZE)"

text \<open>The queued entries, oldest first, and the messages a consumer reads off them.\<close>

definition queue_entries :: "event_queue \<Rightarrow> event_queue_entry list" where
  "queue_entries q =
     map (\<lambda>i. entries q ((q_head q + i) mod MAX_QUEUE_DEPTH)) [0..<q_count q]"

definition entry_msg :: "event_queue_entry \<Rightarrow> cstring" where
  "entry_msg e = cstr (json_data e)"

definition queue_msgs :: "event_queue \<Rightarrow> cstring list" where
  "queue_msgs q = map entry_msg (queue_entries q)"

text \<open>The messages the guard of \<^verbatim>\<open>queue_enqueue\<close> accepts.\<close>

definition msg_ok :: "cstring \<Rightarrow> bool" where
  "msg_ok m \<longleftrightarrow> m \<noteq> [] \<and> length m < MAX_EVENT_SIZE \<and> no_nul m"

text \<open>How the threads call the queue: the collector passes a C string and its length, the
  delivery thread a large enough array, of which it reads the strings of the first
  \<^verbatim>\<open>out_count\<close> entries.\<close>

definition put_msg :: "timespec option \<Rightarrow> cstring \<Rightarrow> event_queue \<Rightarrow> event_queue" where
  "put_msg now m q = the (snd (queue_enqueue now (Some q) (Some (m @ [NUL])) (length m)))"

definition get_msgs :: "nat \<Rightarrow> event_queue \<Rightarrow> cstring list \<times> event_queue" where
  "get_msgs n q =
     (case queue_dequeue_batch (Some q) (Some []) (int n) (Some 0) of
        (_, Some q', Some out, Some k) \<Rightarrow> (map entry_msg (take (nat k) out), q')
      | _ \<Rightarrow> ([], q))"

lemma depth_pos [simp]: "0 < MAX_QUEUE_DEPTH"
  by (simp add: MAX_QUEUE_DEPTH_def)

lemma length_queue_entries [simp]: "length (queue_entries q) = q_count q"
  by (simp add: queue_entries_def)

lemma length_queue_msgs [simp]: "length (queue_msgs q) = q_count q"
  by (simp add: queue_msgs_def)

lemma queue_invI [wf_intros]:
  assumes "q_head q < MAX_QUEUE_DEPTH" "q_count q \<le> MAX_QUEUE_DEPTH"
    and "q_tail q = (q_head q + q_count q) mod MAX_QUEUE_DEPTH"
    and "\<And>i. length (json_data (entries q i)) = MAX_EVENT_SIZE"
  shows "queue_inv q"
  using assms by (simp add: queue_inv_def)

text \<open>The step both operations share: the head moves past the oldest entry.\<close>

abbreviation pop_head :: "event_queue \<Rightarrow> event_queue" where
  "pop_head q \<equiv>
     q\<lparr>q_head := (q_head q + 1) mod MAX_QUEUE_DEPTH, q_count := q_count q - 1\<rparr>"

lemma queue_frame [simp]:
  "queue_entries (q\<lparr>dropped_count := d\<rparr>) = queue_entries q"
  "queue_inv (q\<lparr>dropped_count := d\<rparr>) = queue_inv q"
  by (simp_all add: queue_entries_def queue_inv_def)

lemma q_count_le: "queue_inv q \<Longrightarrow> q_count q \<le> MAX_QUEUE_DEPTH"
  by (simp add: queue_inv_def)

lemma queue_entries_pop:
  assumes "0 < q_count q"
  shows "queue_entries q = entries q (q_head q mod MAX_QUEUE_DEPTH) # queue_entries (pop_head q)"
proof -
  obtain k where k: "q_count q = Suc k" using assms by (cases "q_count q") auto
  have "[0..<Suc k] = 0 # map Suc [0..<k]"
    by (simp add: map_Suc_upt upt_conv_Cons del: upt_Suc)
  then show ?thesis
    by (simp add: queue_entries_def k mod_add_left_eq)
qed

lemma queue_inv_pop: "queue_inv q \<Longrightarrow> 0 < q_count q \<Longrightarrow> queue_inv (pop_head q)"
  using ring_advance [of "q_count q" "q_head q" MAX_QUEUE_DEPTH]
  by (auto simp: queue_inv_def)

lemma drop_oldest_pop:
  "drop_oldest q =
     (if q_count q \<ge> MAX_QUEUE_DEPTH
      then (pop_head q)\<lparr>dropped_count := dropped_count q + 1\<rparr> else q)"
  by (simp add: drop_oldest_def)

section \<open>Enqueue\<close>

lemma queue_inv_drop_oldest:
  assumes "queue_inv q"
  shows "queue_inv (drop_oldest q)" and "q_count (drop_oldest q) < MAX_QUEUE_DEPTH"
    and "q_tail (drop_oldest q) = q_tail q"
proof -
  have pos: "0 < q_count q" if "q_count q \<ge> MAX_QUEUE_DEPTH"
    using that depth_pos by linarith
  show "queue_inv (drop_oldest q)"
    using assms pos queue_inv_pop [OF assms] by (simp add: drop_oldest_pop)
  have "\<not> q_count q \<ge> MAX_QUEUE_DEPTH \<or> q_count q = MAX_QUEUE_DEPTH"
    using assms by (auto simp: queue_inv_def)
  then show "q_count (drop_oldest q) < MAX_QUEUE_DEPTH" by (auto simp: drop_oldest_def)
  show "q_tail (drop_oldest q) = q_tail q" by (simp add: drop_oldest_def)
qed

lemma queue_entries_drop_oldest:
  assumes "queue_inv q"
  shows "queue_entries (drop_oldest q) =
    (if q_count q = MAX_QUEUE_DEPTH then tl (queue_entries q) else queue_entries q)"
proof (cases "q_count q = MAX_QUEUE_DEPTH")
  case True
  with queue_entries_pop [of q] show ?thesis by (simp only: drop_oldest_pop queue_frame) simp
next
  case False
  with assms show ?thesis by (simp add: drop_oldest_def queue_inv_def)
qed

lemma length_fill_entry [simp]:
  "length (json_data e) = MAX_EVENT_SIZE \<Longrightarrow> len \<le> length data \<Longrightarrow> len < MAX_EVENT_SIZE \<Longrightarrow>
     length (json_data (fill_entry now data len e)) = MAX_EVENT_SIZE"
  by (simp add: fill_entry_def)

lemma queue_inv_store_tail:
  assumes "queue_inv q" "q_count q < MAX_QUEUE_DEPTH" "len \<le> length data" "len < MAX_EVENT_SIZE"
  shows "queue_inv (store_tail now data len q)"
  using assms by (auto simp: queue_inv_def store_tail_def mod_add_left_eq mod_Suc_eq)

text \<open>The slot at the tail is free: storing there changes no queued entry.\<close>

lemma queue_entries_store_tail:
  assumes "queue_inv q" "q_count q < MAX_QUEUE_DEPTH"
  shows "queue_entries (store_tail now data len q) =
    queue_entries q @ [fill_entry now data len (entries q (q_tail q))]"
proof -
  have tail: "q_tail q = (q_head q + q_count q) mod MAX_QUEUE_DEPTH"
    using assms by (simp add: queue_inv_def)
  have free: "(q_head q + i) mod MAX_QUEUE_DEPTH \<noteq> q_tail q" if "i < q_count q" for i
    using that assms(2) mod_add_inj [of i MAX_QUEUE_DEPTH "q_count q" "q_head q"] tail by auto
  have "map (\<lambda>i. entries (store_tail now data len q) ((q_head q + i) mod MAX_QUEUE_DEPTH))
          [0..<q_count q] = queue_entries q"
    unfolding queue_entries_def using free by (intro map_cong) (auto simp: store_tail_def)
  then show ?thesis
    by (simp add: queue_entries_def store_tail_def flip: tail)
qed

lemma queue_inv_enqueue_locked [wf_intros]:
  assumes "queue_inv q" "len \<le> length data" "len < MAX_EVENT_SIZE"
  shows "queue_inv (enqueue_locked now data len q)"
  unfolding enqueue_locked_def using assms
  by (intro queue_inv_store_tail) (auto intro: queue_inv_drop_oldest)

lemma entry_msg_fill_entry:
  assumes "no_nul (take len data)" "len \<le> length data" "len < length (json_data e)"
  shows "entry_msg (fill_entry now data len e) = take len data"
proof -
  obtain c rest where "drop len (json_data e) = c # rest"
    using assms(3) by (cases "drop len (json_data e)") auto
  then have "(take len data @ drop len (json_data e))[len := NUL] = take len data @ NUL # rest"
    using assms(2) by (simp add: list_update_append)
  then show ?thesis
    using assms(1) by (simp add: entry_msg_def fill_entry_def cstr_terminated)
qed

lemma queue_msgs_enqueue_locked:
  assumes "queue_inv q" "len \<le> length data" "len < MAX_EVENT_SIZE" "no_nul (take len data)"
  shows "queue_msgs (enqueue_locked now data len q) =
    (if q_count q = MAX_QUEUE_DEPTH then tl (queue_msgs q) else queue_msgs q) @ [take len data]"
proof -
  have inv: "queue_inv (drop_oldest q)" "q_count (drop_oldest q) < MAX_QUEUE_DEPTH"
    using queue_inv_drop_oldest assms(1) by auto
  have "length (json_data (entries (drop_oldest q) (q_tail q))) = MAX_EVENT_SIZE"
    using assms(1) by (simp add: queue_inv_def drop_oldest_def)
  then show ?thesis
    using assms inv
    by (simp add: queue_msgs_def enqueue_locked_def queue_entries_store_tail entry_msg_fill_entry
        queue_entries_drop_oldest queue_inv_drop_oldest map_tl)
qed

lemma counters_enqueue_locked:
  "emitted_count (enqueue_locked now data len q) = emitted_count q + 1"
  "dropped_count (enqueue_locked now data len q) =
     dropped_count q + (if q_count q \<ge> MAX_QUEUE_DEPTH then 1 else 0)"
  by (simp_all add: enqueue_locked_def store_tail_def drop_oldest_def)

section \<open>Dequeue\<close>

lemma dequeue_loop_correct:
  assumes "queue_inv q" "dequeue_loop n q = (es, q')"
  shows "es = take n (queue_entries q) \<and> queue_entries q' = drop n (queue_entries q) \<and>
    queue_inv q' \<and> entries q' = entries q \<and> dropped_count q' = dropped_count q \<and>
    emitted_count q' = emitted_count q"
  using assms
proof (induction n q arbitrary: es q' rule: dequeue_loop.induct)
  case (1 n q)
  show ?case
  proof (cases "0 < n \<and> q_count q > 0")
    case True
    obtain fs r where rec: "dequeue_loop (n - 1) (pop_head q) = (fs, r)" by fastforce
    have inv: "queue_inv (pop_head q)"
      using "1.prems"(1) True by (blast intro: queue_inv_pop)
    have head: "q_head q mod MAX_QUEUE_DEPTH = q_head q" using "1.prems"(1) by (simp add: queue_inv_def)
    have res: "es = entries q (q_head q) # fs" "q' = r"
      using "1.prems"(2) True rec by (simp_all add: dequeue_loop.simps [of n q])
    from True obtain k where "n = Suc k" by (cases n) auto
    with 1(1) [OF True refl inv rec] res queue_entries_pop [of q] True head
    show ?thesis by simp
  next
    case False
    then have "n = 0 \<or> queue_entries q = []" by (auto simp: queue_entries_def)
    with 1 False show ?thesis by (auto simp: dequeue_loop.simps [of n q])
  qed
qed

lemma put_msg_ok: "msg_ok m \<Longrightarrow> put_msg now m q = enqueue_locked now (m @ [NUL]) (length m) q"
  by (auto simp: put_msg_def queue_enqueue_def msg_ok_def)

lemma put_msg_correct:
  assumes "queue_inv q" "msg_ok m"
  shows "queue_inv (put_msg now m q)"
    and "queue_msgs (put_msg now m q) = push_bounded MAX_QUEUE_DEPTH m (queue_msgs q)"
    and "dropped_count (put_msg now m q) =
      dropped_count q + (if length (queue_msgs q) = MAX_QUEUE_DEPTH then 1 else 0)"
    and "emitted_count (put_msg now m q) = emitted_count q + 1"
  using assms
  by (auto simp: put_msg_ok queue_msgs_enqueue_locked msg_ok_def push_bounded_def
      counters_enqueue_locked dest: q_count_le intro: queue_inv_enqueue_locked)

lemma dequeue_loop_0 [simp]: "dequeue_loop 0 q = ([], q)"
  by (simp add: dequeue_loop.simps)

lemma get_msgs_loop: "get_msgs n q = (let (es, q') = dequeue_loop n q in (map entry_msg es, q'))"
  by (auto simp: get_msgs_def queue_dequeue_batch_def split: prod.splits)

lemma get_msgs_correct:
  assumes "queue_inv q"
  shows "queue_inv (snd (get_msgs n q))"
    and "fst (get_msgs n q) = take n (queue_msgs q)"
    and "queue_msgs (snd (get_msgs n q)) = drop n (queue_msgs q)"
    and "dropped_count (snd (get_msgs n q)) = dropped_count q"
    and "emitted_count (snd (get_msgs n q)) = emitted_count q"
proof -
  obtain es q' where "dequeue_loop n q = (es, q')" by fastforce
  with dequeue_loop_correct [OF assms this]
  show "queue_inv (snd (get_msgs n q))"
    and "fst (get_msgs n q) = take n (queue_msgs q)"
    and "queue_msgs (snd (get_msgs n q)) = drop n (queue_msgs q)"
    and "dropped_count (snd (get_msgs n q)) = dropped_count q"
    and "emitted_count (snd (get_msgs n q)) = emitted_count q"
    by (auto simp: get_msgs_loop queue_msgs_def take_map drop_map)
qed

interpretation evq: counted_fifo MAX_QUEUE_DEPTH queue_inv queue_msgs msg_ok put_msg get_msgs
  dropped_count emitted_count
  by unfold_locales (simp_all add: put_msg_correct get_msgs_correct q_count_le)

section \<open>Properties\<close>

text \<open>A block of memory as \<^verbatim>\<open>malloc\<close> might return it, for the instances below.\<close>

definition zeroed_queue :: event_queue where
  "zeroed_queue =
     \<lparr>entries = (\<lambda>_. \<lparr>json_data = replicate MAX_EVENT_SIZE NUL, json_len = 0,
                       enqueue_time = \<lparr>tv_sec = 0, tv_nsec = 0\<rparr>\<rparr>),
      q_head = 0, q_tail = 0, q_count = 0, dropped_count = 0, emitted_count = 0\<rparr>"

lemma zeroed_queue_simps [simp]:
  "queue_inv zeroed_queue" "queue_msgs zeroed_queue = []" "dropped_count zeroed_queue = 0"
  "emitted_count zeroed_queue = 0" "q_count zeroed_queue = 0"
  by (simp_all add: zeroed_queue_def queue_inv_def queue_msgs_def queue_entries_def)

lemma msg_okI: "m \<noteq> [] \<Longrightarrow> length m < 4096 \<Longrightarrow> no_nul m \<Longrightarrow> msg_ok m"
  by (simp add: msg_ok_def MAX_EVENT_SIZE_def)

text \<open>queue_create returns a queue exactly when malloc and both pthread initialisations
  succeed; the queue is then empty, with zero counters, and satisfies the ring invariant whatever
  the memory contained (its json_data arrays having their declared size).\<close>

theorem queue_create_spec:
  assumes "\<forall>q i. mem = Some q \<longrightarrow> length (json_data (entries q i)) = MAX_EVENT_SIZE"
  shows "case queue_create mem mutex_rc cond_rc of
      None \<Rightarrow> mem = None \<or> mutex_rc \<noteq> 0 \<or> cond_rc \<noteq> 0
    | Some q \<Rightarrow> mem \<noteq> None \<and> mutex_rc = 0 \<and> cond_rc = 0 \<and> queue_inv q \<and>
        queue_msgs q = [] \<and> dropped_count q = 0 \<and> emitted_count q = 0"
  using assms
  by (auto simp: queue_create_def queue_inv_def queue_msgs_def queue_entries_def Let_def
      split: option.splits)

theorem queue_create_spec_witness:
  "queue_create (Some (zeroed_queue\<lparr>q_head := 77, q_count := 3\<rparr>)) 0 0 = Some zeroed_queue \<and>
   queue_inv zeroed_queue"
proof -
  let ?mem = "Some (zeroed_queue\<lparr>q_head := 77, q_count := 3\<rparr>)"
  have "\<forall>q i. ?mem = Some q \<longrightarrow> length (json_data (entries q i)) = MAX_EVENT_SIZE"
    by (simp add: zeroed_queue_def)
  from queue_create_spec [OF this, of 0 0] show ?thesis
    by (simp add: zeroed_queue_def queue_create_def)
qed

text \<open>queue_enqueue refuses (returning -1 and changing nothing) exactly a NULL queue, a NULL
  string, an empty string or one of MAX_EVENT_SIZE bytes or more, and otherwise returns 0.\<close>

theorem queue_enqueue_rejects:
  "queue_enqueue now qp datap len =
     (if qp = None \<or> datap = None \<or> len = 0 \<or> len \<ge> MAX_EVENT_SIZE then (-1, qp)
      else (0, Some (enqueue_locked now (the datap) len (the qp)))) \<and>
   (fst (queue_enqueue now qp datap len) = -1 \<longleftrightarrow>
      qp = None \<or> datap = None \<or> len = 0 \<or> len \<ge> MAX_EVENT_SIZE)"
  by (auto simp: queue_enqueue_def split: option.splits)

text \<open>C17: An accepted queue_enqueue refines the abstract drop-oldest push: on a well-formed
  ring, storing len bytes without a NUL keeps the invariant, appends exactly those bytes as the
  newest message, loses the oldest message exactly when the ring held MAX_QUEUE_DEPTH, and counts
  both events (modulo 2^64).\<close>

theorem queue_enqueue_refines_push:
  assumes "queue_inv q" "0 < len" "len < MAX_EVENT_SIZE" "len \<le> length data"
    and "no_nul (take len data)"
  shows "\<exists>q'. queue_enqueue now (Some q) (Some data) len = (0, Some q') \<and> queue_inv q' \<and>
    queue_msgs q' = push_bounded MAX_QUEUE_DEPTH (take len data) (queue_msgs q) \<and>
    emitted_count q' = emitted_count q + 1 \<and>
    dropped_count q' =
      dropped_count q + (if length (queue_msgs q) = MAX_QUEUE_DEPTH then 1 else 0)"
  using assms queue_msgs_enqueue_locked [of q len data now] q_count_le [of q]
  by (auto simp: queue_enqueue_def push_bounded_def counters_enqueue_locked
      intro: queue_inv_enqueue_locked)

theorem queue_enqueue_refines_push_witness:
  "\<exists>q'. queue_enqueue None (Some zeroed_queue) (Some ''{}'') 2 = (0, Some q') \<and>
     queue_msgs q' = [''{}''] \<and> dropped_count q' = 0 \<and> emitted_count q' = 1"
  using queue_enqueue_refines_push [of zeroed_queue 2 "''{}''" None]
  by (auto simp: MAX_EVENT_SIZE_def push_bounded_def MAX_QUEUE_DEPTH_def)

lemma dequeue_batch_result:
  assumes "queue_inv q" "0 < max_count"
  shows "\<exists>q' es. queue_dequeue_batch (Some q) (Some out) max_count (Some c) =
      (0, Some q', Some (es @ drop (length es) out), Some (int (length es))) \<and>
    es = take (nat max_count) (queue_entries q) \<and>
    queue_entries q' = drop (nat max_count) (queue_entries q) \<and> queue_inv q' \<and>
    dropped_count q' = dropped_count q \<and> emitted_count q' = emitted_count q"
proof -
  obtain es q' where d: "dequeue_loop (nat max_count) q = (es, q')" by fastforce
  from dequeue_loop_correct [OF assms(1) d] assms(2) d show ?thesis
    by (auto simp: queue_dequeue_batch_def)
qed

text \<open>A valid queue_dequeue_batch call returns 0, writes the oldest min(max_count, depth)
  entries in order to the front of the caller's array, reports their number, leaves exactly the
  rest queued, and touches neither counter.\<close>

theorem queue_dequeue_batch_spec:
  assumes "queue_inv q" "0 < max_count"
  shows "\<exists>q' es. queue_dequeue_batch (Some q) (Some out) max_count (Some c) =
      (0, Some q', Some (es @ drop (length es) out), Some (int (length es))) \<and>
    es = take (nat max_count) (queue_entries q) \<and>
    queue_entries q' = drop (nat max_count) (queue_entries q) \<and> queue_inv q' \<and>
    dropped_count q' = dropped_count q \<and> emitted_count q' = emitted_count q"
  using assms by (rule dequeue_batch_result)

theorem queue_dequeue_batch_spec_witness:
  "\<exists>q'. queue_dequeue_batch (Some zeroed_queue) (Some []) 1000 (Some 5) =
     (0, Some q', Some [], Some 0) \<and> queue_inv q'"
  using queue_dequeue_batch_spec [of zeroed_queue 1000 "[]" 5]
  by (auto simp: queue_entries_def)

text \<open>C18: For every interleaving of enqueues (of messages the guard accepts) and batched
  dequeues on a well-formed queue: what was delivered followed by what is still queued is a
  subsequence of what was put in order (no duplication, reordering or invention), the queue holds
  a suffix of it (the newest survive), and the invariant is kept.\<close>

theorem queue_schedule_fifo:
  assumes "queue_inv q" "list_all msg_ok (puts_of ops)"
    and "run_fifo put_msg get_msgs ops q = (ds, q')"
  shows "subseq (ds @ queue_msgs q') (queue_msgs q @ puts_of ops) \<and>
    suffix (queue_msgs q') (queue_msgs q @ puts_of ops) \<and> queue_inv q'"
  using evq.run_subseq [OF assms] evq.run_suffix [OF assms(1,2)] evq.run_inv [OF assms(1,2)]
    assms(3) by simp

lemma demo_schedule:
  "fst (run_fifo put_msg get_msgs [Put None ''a'', Put None ''b'', Get 1000] zeroed_queue) =
     [''a'', ''b'']"
proof -
  let ?q1 = "put_msg None ''a'' zeroed_queue"
  have 1: "queue_inv ?q1" "queue_msgs ?q1 = [''a'']"
    by (simp_all add: put_msg_correct msg_okI push_bounded_def MAX_QUEUE_DEPTH_def)
  let ?q2 = "put_msg None ''b'' ?q1"
  have "queue_inv ?q2" "queue_msgs ?q2 = [''a'', ''b'']"
    using 1 by (simp_all add: put_msg_correct msg_okI push_bounded_def MAX_QUEUE_DEPTH_def)
  then show ?thesis using get_msgs_correct(2) [of ?q2 1000] by (simp split: prod.splits)
qed

theorem queue_schedule_fifo_witness:
  "\<exists>q'. run_fifo put_msg get_msgs [Put None ''a'', Put None ''b'', Get 1000] zeroed_queue =
     ([''a'', ''b''], q') \<and> queue_inv q' \<and> suffix (queue_msgs q') [''a'', ''b'']"
proof -
  let ?ops = "[Put None ''a'', Put None ''b'', Get 1000]"
  obtain q' where run: "run_fifo put_msg get_msgs ?ops zeroed_queue = ([''a'', ''b''], q')"
    using demo_schedule by (metis prod.collapse)
  then show ?thesis
    using queue_schedule_fifo [OF zeroed_queue_simps(1) _ run] by (simp add: msg_okI)
qed

text \<open>While the backlog and the new messages together fit the ring the queue is lossless:
  deliveries followed by the remaining queue are exactly the backlog followed by the new
  messages, for every interleaving.\<close>

theorem queue_schedule_lossless:
  assumes "queue_inv q" "list_all msg_ok (puts_of ops)"
    and "length (queue_msgs q @ puts_of ops) \<le> MAX_QUEUE_DEPTH"
    and "run_fifo put_msg get_msgs ops q = (ds, q')"
  shows "ds @ queue_msgs q' = queue_msgs q @ puts_of ops"
  by (rule evq.run_exact [OF assms])

theorem queue_schedule_lossless_witness:
  "\<exists>q'. run_fifo put_msg get_msgs [Put None ''a'', Put None ''b'', Get 1000] zeroed_queue =
     ([''a'', ''b''], q') \<and> queue_msgs q' = []"
proof -
  let ?ops = "[Put None ''a'', Put None ''b'', Get 1000]"
  obtain q' where run: "run_fifo put_msg get_msgs ?ops zeroed_queue = ([''a'', ''b''], q')"
    using demo_schedule by (metis prod.collapse)
  then show ?thesis
    using queue_schedule_lossless [OF zeroed_queue_simps(1) _ _ run]
    by (simp add: msg_okI MAX_QUEUE_DEPTH_def)
qed

text \<open>C20: With a stalled consumer the queue keeps exactly the newest MAX_QUEUE_DEPTH messages:
  after any run of enqueues the contents are the last MAX_QUEUE_DEPTH elements of the backlog
  followed by the new messages.\<close>

theorem queue_keeps_newest:
  assumes "queue_inv q" "list_all msg_ok ms"
  shows "queue_msgs (snd (run_fifo put_msg get_msgs (map (Put now) ms) q)) =
    drop (length (queue_msgs q) + length ms - MAX_QUEUE_DEPTH) (queue_msgs q @ ms)"
  by (rule evq.puts_keep_last [OF assms])

theorem queue_keeps_newest_witness:
  "queue_msgs (snd (run_fifo put_msg get_msgs
      (map (Put None) (replicate 10000 ''x'' @ [''y''])) zeroed_queue)) =
   replicate 9999 ''x'' @ [''y'']"
proof -
  have "list_all msg_ok (replicate 10000 ''x'' @ [''y''])" by (simp add: list_all_iff msg_okI)
  from queue_keeps_newest [OF zeroed_queue_simps(1) this, of None] show ?thesis
    by (simp add: MAX_QUEUE_DEPTH_def)
qed

text \<open>C19: The queue's books balance over every interleaving, modulo 2^64: emitted_count grows by
  the number of messages put, and every message put is delivered, counted in dropped_count, or
  still queued.\<close>

theorem queue_counters_balance:
  assumes "queue_inv q" "list_all msg_ok (puts_of ops)"
    and "run_fifo put_msg get_msgs ops q = (ds, q')"
  shows "emitted_count q' = emitted_count q + of_nat (length (puts_of ops)) \<and>
    dropped_count q' + of_nat (length ds) + of_nat (length (queue_msgs q')) =
    dropped_count q + of_nat (length (queue_msgs q)) + of_nat (length (puts_of ops))"
  by (rule evq.run_balance [OF assms])

theorem queue_counters_balance_witness:
  "\<exists>q'. run_fifo put_msg get_msgs [Put None ''a'', Put None ''b'', Get 1000] zeroed_queue =
     ([''a'', ''b''], q') \<and> emitted_count q' = 2"
proof -
  let ?ops = "[Put None ''a'', Put None ''b'', Get 1000]"
  obtain q' where run: "run_fifo put_msg get_msgs ?ops zeroed_queue = ([''a'', ''b''], q')"
    using demo_schedule by (metis prod.collapse)
  then show ?thesis
    using queue_counters_balance [OF zeroed_queue_simps(1) _ run] by (simp add: msg_okI)
qed

end
