(* ===== verification/Collector.thy ===== *)
theory Collector
  imports Events Event_Queue Utils
begin

text \<open>
  The collector thread of \<^verbatim>\<open>src/main.c\<close>: \<^verbatim>\<open>collector_thread\<close> as a program counter, the
  thread's local variables and one step per interaction with the event queue or \<^verbatim>\<open>g_stop\<close>.

  A step reads the shared state through its arguments and returns the text it passes to
  \<^verbatim>\<open>queue_enqueue\<close>, if any. What the kernel, the clock and the C library answer during the
  step is the argument \<open>sample\<close>. The interleaving with the delivery thread is in \<open>Runtime\<close>.
\<close>

section \<open>State\<close>

text \<open>The answers behind one timestamp and host name. \<open>mo_stale\<close> is the content of \<^verbatim>\<open>ts\<close> when
  the clock fails, \<open>mo_tz_junk\<close> the initial bytes of \<^verbatim>\<open>tz_buf\<close>, and \<open>mo_overrun\<close> what
  \<^verbatim>\<open>rfc_ts\<close> holds when \<^verbatim>\<open>format_rfc3339\<close> reads beyond \<^verbatim>\<open>tz_buf\<close>.\<close>

record moment =
  mo_clock :: "timespec option"
  mo_stale :: timespec
  mo_localtime :: "int \<Rightarrow> tm option"
  mo_tz_junk :: "char list"
  mo_overrun :: cstring
  mo_hostname :: "cstring option"

text \<open>The answers during one step; a file that cannot be opened is \<open>None\<close>.\<close>

record sample =
  sm_moment :: moment
  sm_realtime :: "timespec option" \<comment> \<open>the clock reading \<^verbatim>\<open>queue_enqueue\<close> stores\<close>
  sm_unslept :: nat
  sm_stat :: "char list option"
  sm_meminfo :: "char list option"
  sm_diskstats :: "char list option"
  sm_netdev :: "char list option"
  sm_junk :: "nat \<Rightarrow> nat \<Rightarrow> u64"

datatype collector_pc =
    Warm_Up
  | Baseline
  | Loop_Test
  | Sleeping
  | Announce
  | Sampling
  | Emitting "cstring list" \<comment> \<open>the metric events still to enqueue in this pass\<close>
  | Read_Depth
  | Read_Dropped
  | Self_Report
  | Collector_Exit

record collector =
  co_pc :: collector_pc
  cpu_prev :: cpu_snapshot
  cpu_ready :: bool
  disk_prev :: disk_snapshot
  disk_ready :: bool
  net_prev :: net_snapshot
  net_ready :: bool
  rows :: int
  first_iteration :: bool
  has_previous_sample :: bool
  co_rfc_ts :: cstring
  co_host_json :: cstring
  buffer_depth :: u64
  events_dropped_total :: u64
  events_emitted_total :: u64

text \<open>The thread's variables after the declarations and \<^verbatim>\<open>memset\<close> calls.\<close>

definition collector_start :: collector where
  "collector_start =
     \<lparr>co_pc = Warm_Up, cpu_prev = zero_snapshot, cpu_ready = False, disk_prev = [],
      disk_ready = False, net_prev = [], net_ready = False, rows = 0, first_iteration = True,
      has_previous_sample = False, co_rfc_ts = [], co_host_json = [], buffer_depth = 0,
      events_dropped_total = 0, events_emitted_total = 0\<rparr>"

section \<open>Timestamps and samples\<close>

definition wall_stamp :: "moment \<Rightarrow> cstring" where
  "wall_stamp m =
     (let ts = (case get_wall_time True (mo_clock m) of Some t \<Rightarrow> t | None \<Rightarrow> mo_stale m)
      in case format_rfc3339 (mo_localtime m) (mo_tz_junk m) (Some (tv_sec ts, tv_nsec ts)) 64 of
           Some s \<Rightarrow> s
         | None \<Rightarrow> copy_trunc 64 (mo_overrun m))"

definition collector_baseline :: "syswatch_config \<Rightarrow> sample \<Rightarrow> collector \<Rightarrow> collector" where
  "collector_baseline cfg sm c =
     (let c = (if show_cpu cfg then
                 (case cpu_read_snapshot (sm_junk sm) (sm_stat sm) (Some (cpu_prev c)) of
                    (rc, out) \<Rightarrow> c\<lparr>cpu_prev := the out, cpu_ready := cpu_ready c \<or> rc = 0\<rparr>)
               else c);
          c = (if show_disk cfg then
                 (case disk_read_snapshot (sm_diskstats sm) (Some (disk_prev c)) of
                    (rc, out) \<Rightarrow> c\<lparr>disk_prev := the out, disk_ready := disk_ready c \<or> rc = 0\<rparr>)
               else c)
      in if show_network cfg then
           (case net_read_snapshot (sm_netdev sm) (Some (net_prev c)) (include_loopback cfg) of
              (rc, out) \<Rightarrow> c\<lparr>net_prev := the out, net_ready := net_ready c \<or> rc = 0\<rparr>)
         else c)"

text \<open>One metric category of a pass: the statistics to report, and the new previous snapshot.\<close>

definition sample_cpu ::
  "syswatch_config \<Rightarrow> sample \<Rightarrow> collector \<Rightarrow> cpu_stats option \<times> collector" where
  "sample_cpu cfg sm c =
     (if show_cpu cfg then
        (case cpu_read_snapshot (sm_junk sm) (sm_stat sm) (Some zero_snapshot) of
           (rc, cpu_curr) \<Rightarrow>
             if rc = 0 then
               (if cpu_ready c then cpu_compute_stats (Some (cpu_prev c)) cpu_curr else None,
                c\<lparr>cpu_prev := the cpu_curr, cpu_ready := True\<rparr>)
             else (None, c))
      else (None, c))"

definition sample_memory :: "syswatch_config \<Rightarrow> sample \<Rightarrow> memory_stats option" where
  "sample_memory cfg sm =
     (if show_memory cfg then
        (case memory_read_stats (sm_meminfo sm) (Some zero_memory) of
           (rc, mem_stats) \<Rightarrow> if rc = 0 then mem_stats else None)
      else None)"

definition sample_disk ::
  "syswatch_config \<Rightarrow> sample \<Rightarrow> collector \<Rightarrow> disk_stats option \<times> collector" where
  "sample_disk cfg sm c =
     (if show_disk cfg then
        (case disk_read_snapshot (sm_diskstats sm) (Some []) of
           (rc, disk_curr) \<Rightarrow>
             if rc = 0 then
               (if disk_ready c
                then disk_compute_stats (Some (disk_prev c)) disk_curr (interval_sec cfg) else None,
                c\<lparr>disk_prev := the disk_curr, disk_ready := True\<rparr>)
             else (None, c))
      else (None, c))"

definition sample_network ::
  "syswatch_config \<Rightarrow> sample \<Rightarrow> collector \<Rightarrow> net_stats option \<times> collector" where
  "sample_network cfg sm c =
     (if show_network cfg then
        (case net_read_snapshot (sm_netdev sm) (Some []) (include_loopback cfg) of
           (rc, net_curr) \<Rightarrow>
             if rc = 0 then
               (if net_ready c
                then net_compute_stats (Some (net_prev c)) net_curr (interval_sec cfg) else None,
                c\<lparr>net_prev := the net_curr, net_ready := True\<rparr>)
             else (None, c))
      else (None, c))"

text \<open>The metric events of a pass, in the order they are enqueued.\<close>

definition metric_events ::
  "cstring \<Rightarrow> cstring \<Rightarrow> cpu_stats option \<Rightarrow> memory_stats option \<Rightarrow> disk_stats option
     \<Rightarrow> net_stats option \<Rightarrow> cstring list" where
  "metric_events rfc_ts host_json cpu_ptr mem_ptr disk_ptr net_ptr =
     (case cpu_ptr of Some s \<Rightarrow> [cpu_event rfc_ts host_json s] | None \<Rightarrow> []) @
     (case mem_ptr of Some s \<Rightarrow> [memory_event rfc_ts host_json s] | None \<Rightarrow> []) @
     (case disk_ptr of Some s \<Rightarrow> [disk_event rfc_ts host_json s] | None \<Rightarrow> []) @
     (case net_ptr of Some s \<Rightarrow> [network_event rfc_ts host_json s] | None \<Rightarrow> [])"

definition collector_sample :: "syswatch_config \<Rightarrow> sample \<Rightarrow> collector \<Rightarrow> collector" where
  "collector_sample cfg sm c =
     (let c = c\<lparr>has_previous_sample := True\<rparr>;
          (cpu_ptr, c) = sample_cpu cfg sm c;
          mem_ptr = sample_memory cfg sm;
          (disk_ptr, c) = sample_disk cfg sm c;
          (net_ptr, c) = sample_network cfg sm c;
          rfc_ts = wall_stamp (sm_moment sm);
          host_json = host_text cfg (mo_hostname (sm_moment sm))
      in c\<lparr>co_rfc_ts := rfc_ts, co_host_json := host_json,
           co_pc := Emitting (metric_events rfc_ts host_json cpu_ptr mem_ptr disk_ptr net_ptr)\<rparr>)"

section \<open>The thread\<close>

text \<open>\<open>stop\<close> is \<^verbatim>\<open>g_stop\<close> and \<open>q\<close> the queue as the step finds them. The result is the
  string the step hands to \<^verbatim>\<open>queue_enqueue\<close>.\<close>

fun collector_step ::
  "syswatch_config \<Rightarrow> sample \<Rightarrow> bool \<Rightarrow> event_queue option \<Rightarrow> collector \<Rightarrow> cstring option \<times> collector"
  where
  "collector_step cfg sm stop q c =
     (let rfc_ts = wall_stamp (sm_moment sm);
          host_json = host_text cfg (mo_hostname (sm_moment sm))
      in case co_pc c of
        Warm_Up \<Rightarrow> (Some (warming_up_event rfc_ts host_json), c\<lparr>co_pc := Baseline\<rparr>)
      | Baseline \<Rightarrow> (None, (collector_baseline cfg sm c)\<lparr>co_pc := Loop_Test\<rparr>)
      | Loop_Test \<Rightarrow>
          (None, c\<lparr>co_pc := if \<not> stop \<and> (iterations cfg = 0 \<or> rows c < iterations cfg)
                            then Sleeping else Collector_Exit\<rparr>)
      | Sleeping \<Rightarrow>
          (None, c\<lparr>co_pc := if sm_unslept sm \<noteq> 0 \<and> stop then Collector_Exit else Announce\<rparr>)
      | Announce \<Rightarrow>
          if first_iteration c
          then (Some (ready_event rfc_ts host_json), c\<lparr>first_iteration := False, co_pc := Sampling\<rparr>)
          else (None, c\<lparr>co_pc := Sampling\<rparr>)
      | Sampling \<Rightarrow> (None, collector_sample cfg sm c)
      | Emitting [] \<Rightarrow> (None, c\<lparr>co_pc := Read_Depth\<rparr>)
      | Emitting (m # ms) \<Rightarrow> (Some m, c\<lparr>co_pc := Emitting ms\<rparr>)
      | Read_Depth \<Rightarrow> (None, c\<lparr>buffer_depth := of_int (queue_size q), co_pc := Read_Dropped\<rparr>)
      | Read_Dropped \<Rightarrow>
          (None, c\<lparr>events_dropped_total := queue_dropped_count q, co_pc := Self_Report\<rparr>)
      | Self_Report \<Rightarrow>
          (Some (internal_event (co_rfc_ts c) (co_host_json c) (buffer_depth c)
                   (events_dropped_total c) (events_emitted_total c)),
           c\<lparr>events_emitted_total := events_emitted_total c + 5, rows := rows c + 1,
             co_pc := Loop_Test\<rparr>)
      | Collector_Exit \<Rightarrow> (None, c))"

declare collector_step.simps [simp del]

text \<open>\<^verbatim>\<open>queue_enqueue(ctx->event_queue, json, strlen(json))\<close>\<close>

definition enqueue_text ::
  "timespec option \<Rightarrow> event_queue option \<Rightarrow> cstring \<Rightarrow> rc \<times> event_queue option" where
  "enqueue_text now q json =
     queue_enqueue now q (Some (json @ [NUL])) (length (cstr json))"

section \<open>Every text is accepted by the queue\<close>

definition event_shape :: "cstring \<Rightarrow> bool" where
  "event_shape m \<longleftrightarrow> m \<noteq> [] \<and> hd m = CHR ''{'' \<and> length m < 2048"

lemma shape_copy_trunc:
  "2 \<le> n \<Longrightarrow> n \<le> 2048 \<Longrightarrow> s \<noteq> [] \<Longrightarrow> hd s = CHR ''{'' \<Longrightarrow> event_shape (copy_trunc n s)"
  by (cases s) (auto simp: event_shape_def copy_trunc_def take_Cons')

lemma event_head_brace [simp]:
  "event_head rfc_ts host_json t \<noteq> []" "hd (event_head rfc_ts host_json t) = CHR ''{''"
  by (simp_all add: event_head_def)

lemma shape_append_at:
  assumes "event_shape json" "1 \<le> pos"
  shows "event_shape (snd (append_at 2048 s (pos, json)))"
  using assms by (cases json) (auto simp: event_shape_def append_at_def copy_trunc_def take_Cons')

lemma shape_entries_loop:
  "event_shape (snd st) \<Longrightarrow> 1 \<le> fst st \<Longrightarrow>
     event_shape (snd (entries_loop i es st)) \<and> 1 \<le> fst (entries_loop i es st)"
proof (induction i es st rule: entries_loop.induct)
  case (2 i e es st)
  let ?st = "if i > 0 then append_at 2048 '','' st else st"
  have step: "event_shape (snd (append_at 2048 x st')) \<and> 1 \<le> fst (append_at 2048 x st')"
    if "event_shape (snd st')" "1 \<le> fst st'" for x st'
    using that shape_append_at [of "snd st'" "fst st'" x] by (simp add: append_at_def split: prod.splits)
  have "event_shape (snd ?st) \<and> 1 \<le> fst ?st" using 2 step by simp
  then show ?case using 2 step by (simp add: Let_def)
qed simp

lemma shape_entries_event: "head \<noteq> [] \<Longrightarrow> hd head = CHR ''{'' \<Longrightarrow> event_shape (entries_event head es)"
proof -
  assume h: "head \<noteq> []" "hd head = CHR ''{''"
  then have "1 \<le> length head" by (cases head) auto
  with shape_entries_loop [of "(length head, copy_trunc 2048 head)"] shape_copy_trunc [of 2048 head] h
  have "event_shape (snd (entries_loop 0 es (length head, copy_trunc 2048 head)))"
    "1 \<le> fst (entries_loop 0 es (length head, copy_trunc 2048 head))" by simp_all
  then show ?thesis unfolding entries_event_def Let_def by (metis prod.collapse shape_append_at)
qed

lemma event_shapes [simp]:
  "event_shape (warming_up_event r h)" "event_shape (ready_event r h)" "event_shape (cpu_event r h cs)"
  "event_shape (memory_event r h ms)" "event_shape (disk_event r h ds)" "event_shape (network_event r h ns)"
  "event_shape (internal_event r h a b d)"
  by (simp_all add: warming_up_event_def ready_event_def lifecycle_event_def cpu_event_def memory_event_def
      disk_event_def network_event_def internal_event_def disk_head_def network_head_def
      shape_copy_trunc shape_entries_event)

lemma shape_msg_ok: "event_shape m \<Longrightarrow> msg_ok (cstr m)"
proof -
  assume "event_shape m"
  moreover have "length (cstr m) \<le> length m" by (simp add: cstr_def length_takeWhile_le)
  moreover have "cstr m \<noteq> []" if "m \<noteq> []" "hd m = CHR ''{''" using that by (cases m) (auto simp: cstr_def)
  ultimately show ?thesis by (auto simp: msg_ok_def event_shape_def MAX_EVENT_SIZE_def)
qed

definition shape_inv :: "collector \<Rightarrow> bool" where
  "shape_inv c = (case co_pc c of Emitting ms \<Rightarrow> list_all event_shape ms | _ \<Rightarrow> True)"

lemma metric_events_shape: "list_all event_shape (metric_events r h a b d e)"
  by (auto simp: metric_events_def split: option.splits)

section \<open>Every text is well-formed JSON\<close>

lemma wall_stamp_length: "length (wall_stamp m) < 64"
  using length_copy_trunc [of 64]
  by (auto simp: wall_stamp_def format_rfc3339_def Let_def split: option.splits)

text \<open>What the collector needs from its environment: a timestamp that is the body of a JSON string
  (\<^verbatim>\<open>format_rfc3339\<close> can spoil it, see \<open>Utils\<close>) and device names that need no escaping. It
  always fits, and so does the host name, which is escaped.\<close>

definition moment_ok :: "moment \<Rightarrow> bool" where
  "moment_ok m \<longleftrightarrow> json_text (wall_stamp m)"

lemma moment_head_ok: "moment_ok m \<Longrightarrow> head_ok (wall_stamp m) (host_text cfg (mo_hostname m))"
  using wall_stamp_length [of m] host_text_ok [of cfg "mo_hostname m"] decode_no_nul
  by (simp add: moment_ok_def head_ok_def json_text_def)

definition sample_ok :: "syswatch_config \<Rightarrow> sample \<Rightarrow> bool" where
  "sample_ok cfg sm \<longleftrightarrow> moment_ok (sm_moment sm) \<and>
     (\<forall>c \<in> set (the (snd (disk_read_snapshot (sm_diskstats sm) (Some [])))). json_text (dc_name c)) \<and>
     (\<forall>c \<in> set (the (snd (net_read_snapshot (sm_netdev sm) (Some []) (include_loopback cfg)))).
        json_text (nc_name c))"

definition json_inv :: "collector \<Rightarrow> bool" where
  "json_inv c =
     (case co_pc c of
        Emitting ms \<Rightarrow> list_all json_value ms \<and> head_ok (co_rfc_ts c) (co_host_json c)
      | Read_Depth \<Rightarrow> head_ok (co_rfc_ts c) (co_host_json c)
      | Read_Dropped \<Rightarrow> head_ok (co_rfc_ts c) (co_host_json c)
      | Self_Report \<Rightarrow> head_ok (co_rfc_ts c) (co_host_json c)
      | _ \<Rightarrow> True)"

definition short_names :: "('c \<Rightarrow> cstring) \<Rightarrow> 'c list \<Rightarrow> bool" where
  "short_names name cs \<longleftrightarrow> length cs \<le> 32 \<and> (\<forall>c \<in> set cs. length (name c) < 32)"

lemma short_names_snoc:
  "short_names name cs \<Longrightarrow> length cs < 32 \<Longrightarrow> length (name c) < 32 \<Longrightarrow> short_names name (cs @ [c])"
  by (auto simp: short_names_def)

lemma disk_line_short: "disk_line l = Some c \<Longrightarrow> length (dc_name c) < 32"
  by (auto simp: disk_line_def Let_def copy_trunc_def split: if_splits prod.splits)

lemma net_line_short: "net_line lo l = Some c \<Longrightarrow> length (nc_name c) < 32"
  by (auto simp: net_line_def Let_def copy_trunc_def split: if_splits prod.splits)

lemma disk_lines_short: "short_names dc_name out \<Longrightarrow> short_names dc_name (disk_lines ls out)"
  by (induction ls arbitrary: out)
    (simp_all add: MAX_DISKS_def short_names_snoc disk_line_short split: option.split)

lemma net_lines_short: "short_names nc_name out \<Longrightarrow> short_names nc_name (net_lines lo k ls out)"
  by (induction ls arbitrary: out k)
    (simp_all add: MAX_INTERFACES_def short_names_snoc net_line_short split: option.split)

lemma disk_names_short:
  "disk_read_snapshot f (Some []) = (rc, Some cur) \<Longrightarrow> short_names dc_name cur"
  using disk_lines_short [of "[]"]
  by (auto simp: disk_read_snapshot_def short_names_def split: option.splits)

lemma net_names_short:
  "net_read_snapshot f (Some []) lo = (rc, Some cur) \<Longrightarrow> short_names nc_name cur"
  using net_lines_short [of "[]"]
  by (auto simp: net_read_snapshot_def short_names_def split: option.splits)

lemma self_and_memory_json:
  assumes "head_ok r h"
  shows "json_value (memory_event r h m)" "json_value (internal_event r h depth dropped emitted)"
proof -
  obtain st where "cpu_compute_stats (Some zero_snapshot) (Some zero_snapshot) = Some st"
    by (simp add: cpu_compute_stats_def)
  from metric_events_json [OF assms this]
  show "json_value (memory_event r h m)" "json_value (internal_event r h depth dropped emitted)"
    by (simp_all add: zero_snapshot_def)
qed

lemma sample_cpu_json:
  assumes "head_ok r h" "fst (sample_cpu cfg sm c) = Some st"
  shows "json_value (cpu_event r h st)"
proof -
  obtain cur where "cpu_read_snapshot (sm_junk sm) (sm_stat sm) (Some zero_snapshot) = (0, cur)"
    "cpu_compute_stats (Some (cpu_prev c)) cur = Some st"
    using assms(2) by (auto simp: sample_cpu_def split: if_splits prod.splits)
  moreover from this obtain cur' where "cur = Some cur'" "length (cs_cores cur') \<le> 256"
    using cpu_cores_bounded [of zero_snapshot "sm_junk sm" 0]
    by (auto simp: cpu_read_snapshot_def zero_snapshot_def MAX_CORES_def split: option.splits)
  ultimately show ?thesis using metric_events_json [OF assms(1)] by blast
qed

lemma sample_disk_json:
  assumes "head_ok r h" "sample_ok cfg sm" "fst (sample_disk cfg sm c) = Some st"
  shows "json_value (disk_event r h st)"
proof -
  obtain cur where 1: "disk_read_snapshot (sm_diskstats sm) (Some []) = (0, cur)"
    "disk_compute_stats (Some (disk_prev c)) cur (interval_sec cfg) = Some st"
    using assms(3) by (auto simp: sample_disk_def split: if_splits prod.splits)
  then obtain cur' where 2: "cur = Some cur'" by (auto simp: disk_compute_stats_def split: option.splits)
  have "short_names dc_name cur'" using 1(1) 2 disk_names_short by simp
  moreover have "\<forall>c \<in> set cur'. json_text (dc_name c)" using assms(2) 1(1) 2 by (simp add: sample_ok_def)
  ultimately have "length cur' \<le> 32" "\<forall>c \<in> set cur'. name_ok (dc_name c)"
    by (simp_all add: short_names_def name_ok_def)
  with disk_event_facts [OF assms(1) _ this] 1(2) 2 show ?thesis by blast
qed

lemma sample_network_json:
  assumes "head_ok r h" "sample_ok cfg sm" "fst (sample_network cfg sm c) = Some st"
  shows "json_value (network_event r h st)"
proof -
  obtain cur where 1: "net_read_snapshot (sm_netdev sm) (Some []) (include_loopback cfg) = (0, cur)"
    "net_compute_stats (Some (net_prev c)) cur (interval_sec cfg) = Some st"
    using assms(3) by (auto simp: sample_network_def split: if_splits prod.splits)
  then obtain cur' where 2: "cur = Some cur'" by (auto simp: net_compute_stats_def split: option.splits)
  have "short_names nc_name cur'" using 1(1) 2 net_names_short by simp
  moreover have "\<forall>c \<in> set cur'. json_text (nc_name c)" using assms(2) 1(1) 2 by (simp add: sample_ok_def)
  ultimately have "length cur' \<le> 32" "\<forall>c \<in> set cur'. name_ok (nc_name c)"
    by (simp_all add: short_names_def name_ok_def)
  with network_event_facts [OF assms(1) _ this] 1(2) 2 show ?thesis by blast
qed

text \<open>The result of a sampling step, spelt out.\<close>

lemma collector_sample_simps:
  "co_pc (collector_sample cfg sm c) =
     Emitting (metric_events (wall_stamp (sm_moment sm)) (host_text cfg (mo_hostname (sm_moment sm)))
       (fst (sample_cpu cfg sm (c\<lparr>has_previous_sample := True\<rparr>))) (sample_memory cfg sm)
       (fst (sample_disk cfg sm (snd (sample_cpu cfg sm (c\<lparr>has_previous_sample := True\<rparr>)))))
       (fst (sample_network cfg sm (snd (sample_disk cfg sm
          (snd (sample_cpu cfg sm (c\<lparr>has_previous_sample := True\<rparr>))))))))"
  "co_rfc_ts (collector_sample cfg sm c) = wall_stamp (sm_moment sm)"
  "co_host_json (collector_sample cfg sm c) = host_text cfg (mo_hostname (sm_moment sm))"
  by (simp_all add: collector_sample_def Let_def split: prod.split)

lemma collector_sample_json:
  assumes "sample_ok cfg sm"
  shows "json_inv (collector_sample cfg sm c)"
proof -
  have h: "head_ok (wall_stamp (sm_moment sm)) (host_text cfg (mo_hostname (sm_moment sm)))"
    using assms by (intro moment_head_ok) (simp add: sample_ok_def)
  then show ?thesis
    using sample_cpu_json [OF h] sample_disk_json [OF h assms] sample_network_json [OF h assms]
      self_and_memory_json(1) [OF h]
    by (auto simp: json_inv_def collector_sample_simps metric_events_def split: option.splits)
qed

lemma collector_step_json:
  assumes "json_inv c" "sample_ok cfg sm" "collector_step cfg sm stop q c = (mo, c')"
  shows "json_inv c' \<and> (\<forall>m. mo = Some m \<longrightarrow> json_value m)"
proof -
  have "head_ok (wall_stamp (sm_moment sm)) (host_text cfg (mo_hostname (sm_moment sm)))"
    using assms(2) by (intro moment_head_ok) (simp add: sample_ok_def)
  note head = this lifecycle_events_json [OF this] self_and_memory_json(2)
  show ?thesis
  proof (cases "co_pc c = Sampling")
    case True
    then show ?thesis using assms(3) collector_sample_json [OF assms(2)] by (auto simp: collector_step.simps)
  next
    case False
    then show ?thesis using assms(1,3) head
      by (auto simp: collector_step.simps json_inv_def Let_def split: collector_pc.splits list.splits if_splits)
  qed
qed

lemma collector_step_shape:
  assumes "shape_inv c" "collector_step cfg sm stop q c = (mo, c')"
  shows "shape_inv c' \<and> (\<forall>m. mo = Some m \<longrightarrow> event_shape m)"
  using assms
  by (auto simp: collector_step.simps shape_inv_def Let_def collector_sample_simps metric_events_shape
      split: collector_pc.splits list.splits if_splits)

lemma collector_start_inv [simp]: "shape_inv collector_start" "json_inv collector_start"
  by (simp_all add: shape_inv_def json_inv_def collector_start_def)

section \<open>Timestamps\<close>

lemma plain_pad [simp]: "list_all plain_json (pad_left k (CHR ''0'') (show_nat n))"
proof -
  have "plain_json (CHR ''0'')" by code_simp
  then show ?thesis using isdigit_show_nat by (auto simp: pad_left_def list_all_iff)
qed

lemma rfc3339_plain: "tm_valid t \<Longrightarrow> list_all plain_json (rfc3339_text t nsec)"
proof -
  assume v: "tm_valid t"
  have "list_all plain_json ''-:.TZ+''" by code_simp
  then have c: "plain_json (CHR ''-'')" "plain_json (CHR '':'')" "plain_json (CHR ''.'')"
    "plain_json (CHR ''T'')" "plain_json (CHR ''Z'')" "plain_json (CHR ''+'')" by simp_all
  have "list_all plain_json (show_int (tm_year t + 1900))"
    using v isdigit_show_nat by (auto simp: show_int_def tm_valid_def list_all_iff)
  with c show ?thesis by (simp add: rfc3339_text_def strftime_iso_def rfc3339_offset_def two_digits_def)
qed

lemma rfc3339_length:
  assumes "tm_valid t" "0 \<le> nsec" "nsec < 1000000000"
  shows "length (rfc3339_text t nsec) < 64"
proof -
  have "nat (nsec div 1000000) < 10 ^ 3" using assms(2,3) by simp
  then have "length (show_nat (nat (nsec div 1000000))) \<le> 3" by (intro length_show_nat) auto
  then have "length (pad_left 3 (CHR ''0'') (show_nat (nat (nsec div 1000000)))) = 3" by (simp add: pad_left_def)
  moreover have "length (rfc3339_offset t) = 6"
    using assms(1) off_minutes_bounds [OF assms(1)]
    by (simp add: rfc3339_offset_def two_digits_eq tm_valid_def)
  ultimately show ?thesis using length_strftime_iso [OF assms(1)] by (simp add: rfc3339_text_def)
qed

text \<open>The timestamp is right when byte 6 of the uninitialised \<^verbatim>\<open>tz_buf\<close> happens to be NUL.\<close>

lemma moment_okI:
  assumes "mo_clock m = Some ts" "mo_localtime m (tv_sec ts) = Some t" "tm_valid t"
    and "0 \<le> tv_nsec ts" "tv_nsec ts < 1000000000" "drop 6 (mo_tz_junk m) = NUL # junk"
  shows "wall_stamp m = rfc3339_text t (tv_nsec ts)" and "moment_ok m"
proof -
  note len = rfc3339_length [OF assms(3-5)]
  have "format_rfc3339 (mo_localtime m) (mo_tz_junk m) (Some (tv_sec ts, tv_nsec ts)) 64 =
      Some (copy_trunc 64 (rfc3339_text t (tv_nsec ts) @ cstr (drop 6 (mo_tz_junk m))))"
    using assms(6) by (subst format_rfc3339_bytes [where t = t]) (simp_all add: assms(2,3))
  then show w: "wall_stamp m = rfc3339_text t (tv_nsec ts)"
    using assms(1,6) len by (simp add: wall_stamp_def get_wall_time_def cstr_def)
  have "json_text (rfc3339_text t (tv_nsec ts))" by (intro json_text_plain rfc3339_plain assms)
  then show "moment_ok m"
    unfolding moment_ok_def w .
qed

section \<open>Passes\<close>

text \<open>What sampling leaves alone.\<close>

lemma sample_frame:
  "co_pc (snd (sample_cpu cfg sm c)) = co_pc c" "rows (snd (sample_cpu cfg sm c)) = rows c"
  "first_iteration (snd (sample_cpu cfg sm c)) = first_iteration c"
  "events_emitted_total (snd (sample_cpu cfg sm c)) = events_emitted_total c"
  "co_pc (snd (sample_disk cfg sm c)) = co_pc c" "rows (snd (sample_disk cfg sm c)) = rows c"
  "first_iteration (snd (sample_disk cfg sm c)) = first_iteration c"
  "events_emitted_total (snd (sample_disk cfg sm c)) = events_emitted_total c"
  "co_pc (snd (sample_network cfg sm c)) = co_pc c" "rows (snd (sample_network cfg sm c)) = rows c"
  "first_iteration (snd (sample_network cfg sm c)) = first_iteration c"
  "events_emitted_total (snd (sample_network cfg sm c)) = events_emitted_total c"
  by (simp_all add: sample_cpu_def sample_disk_def sample_network_def split: prod.split)

lemma collector_sample_frame [simp]:
  "rows (collector_sample cfg sm c) = rows c"
  "first_iteration (collector_sample cfg sm c) = first_iteration c"
  "events_emitted_total (collector_sample cfg sm c) = events_emitted_total c"
  by (simp_all add: collector_sample_def Let_def prod.case_eq_if sample_frame)

lemma collector_baseline_frame [simp]:
  "rows (collector_baseline cfg sm c) = rows c"
  "first_iteration (collector_baseline cfg sm c) = first_iteration c"
  "events_emitted_total (collector_baseline cfg sm c) = events_emitted_total c"
  by (simp_all add: collector_baseline_def Let_def split: prod.split)

text \<open>The number of metric categories the configuration enables bounds the metric events of a
  pass.\<close>

definition enabled :: "syswatch_config \<Rightarrow> nat" where
  "enabled cfg =
     of_bool (show_cpu cfg) + of_bool (show_memory cfg) + of_bool (show_disk cfg) + of_bool (show_network cfg)"

lemma enabled_le: "enabled cfg \<le> 4"
  by (simp add: enabled_def)

lemma sample_disabled:
  "\<not> show_cpu cfg \<Longrightarrow> fst (sample_cpu cfg sm c) = None"
  "\<not> show_memory cfg \<Longrightarrow> sample_memory cfg sm = None"
  "\<not> show_disk cfg \<Longrightarrow> fst (sample_disk cfg sm c) = None"
  "\<not> show_network cfg \<Longrightarrow> fst (sample_network cfg sm c) = None"
  by (simp_all add: sample_cpu_def sample_memory_def sample_disk_def sample_network_def)

lemma metric_events_length:
  assumes "cs \<noteq> None \<Longrightarrow> show_cpu cfg" "ms \<noteq> None \<Longrightarrow> show_memory cfg"
    "ds \<noteq> None \<Longrightarrow> show_disk cfg" "ns \<noteq> None \<Longrightarrow> show_network cfg"
  shows "length (metric_events r h cs ms ds ns) \<le> enabled cfg"
  using assms
  by (cases cs; cases ms; cases ds; cases ns) (simp_all add: metric_events_def enabled_def)

lemma collector_sample_events:
  "\<exists>ms. co_pc (collector_sample cfg sm c) = Emitting ms \<and> length ms \<le> enabled cfg"
  unfolding collector_sample_simps
  by (rule exI, rule conjI, rule refl, rule metric_events_length) (metis sample_disabled)+

text \<open>How many texts the thread has passed to the queue: one when it starts, one when it announces
  that it is ready, and in each pass at most one per enabled category and one about itself.\<close>

definition sends_bound :: "syswatch_config \<Rightarrow> collector \<Rightarrow> nat" where
  "sends_bound cfg c =
     of_bool (co_pc c \<noteq> Warm_Up) + of_bool (\<not> first_iteration c) + (enabled cfg + 1) * nat (rows c) +
     (case co_pc c of
        Emitting ms \<Rightarrow> enabled cfg - length ms
      | Read_Depth \<Rightarrow> enabled cfg
      | Read_Dropped \<Rightarrow> enabled cfg
      | Self_Report \<Rightarrow> enabled cfg
      | _ \<Rightarrow> 0)"

definition pass_inv :: "syswatch_config \<Rightarrow> collector \<Rightarrow> bool" where
  "pass_inv cfg c \<longleftrightarrow>
     0 \<le> rows c \<and> events_emitted_total c = 5 * of_int (rows c) \<and>
     (case co_pc c of Emitting ms \<Rightarrow> length ms \<le> enabled cfg | _ \<Rightarrow> True) \<and>
     (0 < iterations cfg \<longrightarrow>
        rows c + of_bool (co_pc c \<notin> {Warm_Up, Baseline, Loop_Test, Collector_Exit}) \<le> iterations cfg)"

lemma pass_inv_start [simp]: "pass_inv cfg collector_start"
  by (simp add: pass_inv_def collector_start_def)

lemma pass_inv_step:
  assumes "pass_inv cfg c" "collector_step cfg sm stop q c = (mo, c')"
  shows "pass_inv cfg c'"
proof (cases "co_pc c")
  case (Emitting ms)
  then show ?thesis using assms by (cases ms) (auto simp: collector_step.simps pass_inv_def Let_def)
next
  case Sampling
  obtain ms where "co_pc (collector_sample cfg sm c) = Emitting ms" "length ms \<le> enabled cfg"
    using collector_sample_events by blast
  then show ?thesis using assms Sampling by (auto simp: collector_step.simps pass_inv_def Let_def)
qed (use assms in \<open>auto simp: collector_step.simps pass_inv_def Let_def split: if_splits\<close>)

lemma sends_bound_step:
  assumes "pass_inv cfg c" "collector_step cfg sm stop q c = (mo, c')"
  shows "sends_bound cfg c + of_bool (mo \<noteq> None) \<le> sends_bound cfg c'"
proof (cases "co_pc c")
  case (Emitting ms)
  then show ?thesis using assms by (cases ms) (auto simp: collector_step.simps pass_inv_def sends_bound_def Let_def nat_add_distrib)
next
  case Sampling
  obtain ms where "co_pc (collector_sample cfg sm c) = Emitting ms" "length ms \<le> enabled cfg"
    using collector_sample_events by blast
  then show ?thesis using assms Sampling by (auto simp: collector_step.simps pass_inv_def sends_bound_def Let_def nat_add_distrib)
qed (use assms in \<open>auto simp: collector_step.simps pass_inv_def sends_bound_def Let_def nat_add_distrib split: if_splits\<close>)

text \<open>With a bounded number of passes every step brings the thread closer to its end.\<close>

definition collector_left :: "syswatch_config \<Rightarrow> collector \<Rightarrow> nat" where
  "collector_left cfg c =
     20 * nat (iterations cfg - rows c) +
     (case co_pc c of
        Warm_Up \<Rightarrow> 18 | Baseline \<Rightarrow> 17 | Loop_Test \<Rightarrow> 16 | Sleeping \<Rightarrow> 15 | Announce \<Rightarrow> 14 | Sampling \<Rightarrow> 13
      | Emitting ms \<Rightarrow> 8 + length ms | Read_Depth \<Rightarrow> 7 | Read_Dropped \<Rightarrow> 6 | Self_Report \<Rightarrow> 5
      | Collector_Exit \<Rightarrow> 0)"

lemma collector_left_step:
  assumes "pass_inv cfg c" "collector_step cfg sm stop q c = (mo, c')" "co_pc c \<noteq> Collector_Exit"
    "0 < iterations cfg"
  shows "collector_left cfg c' < collector_left cfg c"
proof (cases "co_pc c")
  case (Emitting ms)
  then show ?thesis using assms enabled_le [of cfg] by (cases ms) (auto simp: collector_step.simps pass_inv_def collector_left_def Let_def)
next
  case Sampling
  obtain ms where "co_pc (collector_sample cfg sm c) = Emitting ms" "length ms \<le> enabled cfg"
    using collector_sample_events by blast
  then show ?thesis using assms enabled_le [of cfg] Sampling by (auto simp: collector_step.simps pass_inv_def collector_left_def Let_def)
qed (use assms enabled_le [of cfg] in \<open>auto simp: collector_step.simps pass_inv_def collector_left_def Let_def split: if_splits\<close>)

end
