(* ===== verification/Runtime.thy ===== *)
theory Runtime
  imports Collector Output
begin

text \<open>
  The three threads of \<^verbatim>\<open>src/main.c\<close> and the signal handler, interleaved: the collector
  (\<open>collector_step\<close>), the delivery thread (\<open>delivery_step\<close>, \<^verbatim>\<open>delivery_thread\<close>)
  and the part of \<^verbatim>\<open>main\<close> after the output is initialised.

  \<open>sys_step\<close> moves one of them by one access to the shared state: the queue (each queue
  function is one critical section), \<^verbatim>\<open>g_stop\<close>, and the output state, which only the
  delivery thread and, once that has been joined, \<^verbatim>\<open>main\<close> use. Two ghost fields record
  the strings the queue accepted and the strings passed to \<^verbatim>\<open>output_emit_event\<close>.
\<close>

section \<open>The delivery thread\<close>

datatype delivery_pc =
    Check_Stop
  | Check_Queue
  | Dequeue
  | Emit nat \<comment> \<open>the value of \<^verbatim>\<open>i\<close>\<close>
  | Flush
  | Pause
  | Final_Flush
  | Delivery_Exit

record delivery =
  de_pc :: delivery_pc
  de_batch :: "event_queue_entry list"
  batch_count :: int

text \<open>\<open>batch\<close> is the uninitialised array of 1000 entries.\<close>

definition delivery_start :: "event_queue_entry list \<Rightarrow> event_queue option \<Rightarrow> delivery" where
  "delivery_start batch q =
     \<lparr>de_pc = (if q = None then Delivery_Exit else Check_Stop), de_batch = batch, batch_count = 0\<rparr>"

text \<open>The string the loop over the batch passes to \<^verbatim>\<open>output_emit_event\<close> next, if it is not over.\<close>

definition next_event :: "delivery \<Rightarrow> cstring option" where
  "next_event d =
     (case de_pc d of
        Emit i \<Rightarrow> if int i < batch_count d then Some (entry_msg (de_batch d ! i)) else None
      | _ \<Rightarrow> None)"

fun delivery_step ::
  "output_env \<Rightarrow> bool \<Rightarrow> delivery \<times> event_queue option \<times> output_state \<times> output_world
     \<Rightarrow> delivery \<times> event_queue option \<times> output_state \<times> output_world" where
  "delivery_step env stop (d, q, g, w) =
     (case de_pc d of
        Check_Stop \<Rightarrow> (d\<lparr>de_pc := if stop then Check_Queue else Dequeue\<rparr>, q, g, w)
      | Check_Queue \<Rightarrow>
          (d\<lparr>de_pc := if queue_size q > 0 then Dequeue else Final_Flush\<rparr>, q, g, w)
      | Dequeue \<Rightarrow>
          (case queue_dequeue_batch q (Some (de_batch d)) 1000 (Some (batch_count d)) of
             (rc, q', out, out_count) \<Rightarrow>
               (d\<lparr>de_batch := the out, batch_count := the out_count,
                  de_pc := if rc = 0 \<and> the out_count > 0 then Emit 0 else Pause\<rparr>, q', g, w))
      | Emit i \<Rightarrow>
          (case next_event d of
             None \<Rightarrow> (d\<lparr>de_pc := Flush\<rparr>, q, g, w)
           | Some json \<Rightarrow>
               (case output_emit_event env (Some json) g w of
                  (rc, g', w') \<Rightarrow> (d\<lparr>de_pc := Emit (Suc i)\<rparr>, q, g', w')))
      | Flush \<Rightarrow>
          (case output_flush env g w of (rc, g', w') \<Rightarrow> (d\<lparr>de_pc := Check_Stop\<rparr>, q, g', w'))
      | Pause \<Rightarrow> (d\<lparr>de_pc := Check_Stop\<rparr>, q, g, w)
      | Final_Flush \<Rightarrow>
          (case output_flush env g w of (rc, g', w') \<Rightarrow> (d\<lparr>de_pc := Delivery_Exit\<rparr>, q, g', w'))
      | Delivery_Exit \<Rightarrow> (d, q, g, w))"

declare delivery_step.simps [simp del]

lemma next_event_case [simp]:
  "(case next_event d of None \<Rightarrow> a | Some json \<Rightarrow> f json) =
     (case de_pc d of
        Emit i \<Rightarrow> if int i < batch_count d then f (entry_msg (de_batch d ! i)) else a
      | _ \<Rightarrow> a)"
  by (simp add: next_event_def split: delivery_pc.split)

text \<open>The strings still to pass from the current batch.\<close>

definition batch_rest :: "delivery \<Rightarrow> cstring list" where
  "batch_rest d =
     (case de_pc d of
        Emit i \<Rightarrow> map entry_msg (drop i (take (nat (batch_count d)) (de_batch d)))
      | _ \<Rightarrow> [])"

section \<open>The whole program\<close>

datatype main_pc =
    Create_Collector
  | Create_Delivery
  | Join_Collector
  | Join_Delivery
  | Join_Abandoned \<comment> \<open>the delivery thread could not be created\<close>
  | Shutdown
  | Returned int

record sys =
  s_queue :: "event_queue option"
  s_stop :: bool
  s_collector :: "collector option"
  s_delivery :: "delivery option"
  s_main :: main_pc
  s_out :: output_state
  s_world :: output_world
  s_sent :: "cstring list" \<comment> \<open>ghost\<close>
  s_emitted :: "cstring list" \<comment> \<open>ghost\<close>

definition sys_start :: "event_queue option \<Rightarrow> output_state \<Rightarrow> output_world \<Rightarrow> sys" where
  "sys_start q g w =
     \<lparr>s_queue = q, s_stop = False, s_collector = None, s_delivery = None, s_main = Create_Collector,
      s_out = g, s_world = w, s_sent = [], s_emitted = []\<rparr>"

definition collector_moves :: "syswatch_config \<Rightarrow> sample \<Rightarrow> collector \<Rightarrow> sys \<Rightarrow> sys" where
  "collector_moves cfg sm c s =
     (case collector_step cfg sm (s_stop s) (s_queue s) c of
        (None, c') \<Rightarrow> s\<lparr>s_collector := Some c'\<rparr>
      | (Some json, c') \<Rightarrow>
          (case enqueue_text (sm_realtime sm) (s_queue s) json of
             (rc, q') \<Rightarrow>
               s\<lparr>s_collector := Some c', s_queue := q',
                 s_sent := s_sent s @ (if rc = 0 then [cstr json] else [])\<rparr>))"

definition delivery_moves :: "output_env \<Rightarrow> delivery \<Rightarrow> sys \<Rightarrow> sys" where
  "delivery_moves env d s =
     (case delivery_step env (s_stop s) (d, s_queue s, s_out s, s_world s) of
        (d', q', g', w') \<Rightarrow>
          s\<lparr>s_delivery := Some d', s_queue := q', s_out := g', s_world := w',
            s_emitted := s_emitted s @
              (case next_event d of None \<Rightarrow> [] | Some json \<Rightarrow> [json])\<rparr>)"

text \<open>\<^verbatim>\<open>output_shutdown()\<close>, then \<^verbatim>\<open>return\<close>.\<close>

definition shutdown_output :: "output_env \<Rightarrow> int \<Rightarrow> sys \<Rightarrow> sys" where
  "shutdown_output env code s =
     (case output_shutdown env (s_out s) (s_world s) of
        (g', w') \<Rightarrow> s\<lparr>s_out := g', s_world := w', s_main := Returned code\<rparr>)"

text \<open>\<^verbatim>\<open>fprintf(stderr, ...)\<close> when a thread cannot be created.\<close>

definition complain :: "cstring \<Rightarrow> sys \<Rightarrow> sys" where
  "complain msg s = s\<lparr>s_world := eprint (msg @ [LF]) (s_world s)\<rparr>"

definition collector_done :: "sys \<Rightarrow> bool" where
  "collector_done s = (case s_collector s of Some c \<Rightarrow> co_pc c = Collector_Exit | None \<Rightarrow> False)"

definition delivery_done :: "sys \<Rightarrow> bool" where
  "delivery_done s = (case s_delivery s of Some d \<Rightarrow> de_pc d = Delivery_Exit | None \<Rightarrow> False)"

text \<open>Who moves; \<open>Main_Step\<close> says whether the thread it may create is created, and with which
  contents of the delivery thread's array.\<close>

datatype action =
    Collector_Step sample
  | Delivery_Step
  | Main_Step bool "event_queue_entry list"
  | Signal

inductive sys_step :: "output_env \<Rightarrow> syswatch_config \<Rightarrow> sys \<Rightarrow> action \<Rightarrow> sys \<Rightarrow> bool"
  for env cfg where
  collector: "s_collector s = Some c \<Longrightarrow> co_pc c \<noteq> Collector_Exit \<Longrightarrow>
     sys_step env cfg s (Collector_Step sm) (collector_moves cfg sm c s)"
| delivery: "s_delivery s = Some d \<Longrightarrow> de_pc d \<noteq> Delivery_Exit \<Longrightarrow>
     sys_step env cfg s Delivery_Step (delivery_moves env d s)"
| create_collector: "s_main s = Create_Collector \<Longrightarrow>
     sys_step env cfg s (Main_Step True b)
       (s\<lparr>s_collector := Some collector_start, s_main := Create_Delivery\<rparr>)"
| no_collector: "s_main s = Create_Collector \<Longrightarrow>
     sys_step env cfg s (Main_Step False b)
       (shutdown_output env 5 (complain ''failed to create collector thread'' s))"
| create_delivery: "s_main s = Create_Delivery \<Longrightarrow> length b = 1000 \<Longrightarrow>
     sys_step env cfg s (Main_Step True b)
       (s\<lparr>s_delivery := Some (delivery_start b (s_queue s)), s_main := Join_Collector\<rparr>)"
| no_delivery: "s_main s = Create_Delivery \<Longrightarrow>
     sys_step env cfg s (Main_Step False b)
       ((complain ''failed to create delivery thread'' s)\<lparr>s_stop := True, s_main := Join_Abandoned\<rparr>)"
| join_abandoned: "s_main s = Join_Abandoned \<Longrightarrow> collector_done s \<Longrightarrow>
     sys_step env cfg s (Main_Step True b) (shutdown_output env 6 s)"
| join_collector: "s_main s = Join_Collector \<Longrightarrow> collector_done s \<Longrightarrow>
     sys_step env cfg s (Main_Step True b) (s\<lparr>s_stop := True, s_main := Join_Delivery\<rparr>)"
| join_delivery: "s_main s = Join_Delivery \<Longrightarrow> delivery_done s \<Longrightarrow>
     sys_step env cfg s (Main_Step True b) (s\<lparr>s_main := Shutdown\<rparr>)"
| main_shutdown: "s_main s = Shutdown \<Longrightarrow>
     sys_step env cfg s (Main_Step True b) ((shutdown_output env 0 s)\<lparr>s_queue := None\<rparr>)"
| signal: "sys_step env cfg s Signal (s\<lparr>s_stop := True\<rparr>)"

text \<open>The runs whose actions satisfy a predicate.\<close>

inductive sys_run ::
  "output_env \<Rightarrow> syswatch_config \<Rightarrow> (action \<Rightarrow> bool) \<Rightarrow> sys \<Rightarrow> sys \<Rightarrow> bool"
  for env cfg allowed where
  run_refl: "sys_run env cfg allowed s s"
| run_step: "sys_run env cfg allowed s s1 \<Longrightarrow> sys_step env cfg s1 a s2 \<Longrightarrow> allowed a \<Longrightarrow>
     sys_run env cfg allowed s s2"

inductive_cases sys_stepE: "sys_step env cfg s a s'"

lemma run_invariant:
  assumes "sys_run env cfg allowed s s'" "P s"
    and "\<And>s a s'. P s \<Longrightarrow> sys_step env cfg s a s' \<Longrightarrow> allowed a \<Longrightarrow> P s'"
  shows "P s'"
  using assms by (induction rule: sys_run.induct) blast+

section \<open>Single calls\<close>

text \<open>What the moves leave alone.\<close>

lemma delivery_moves_frame [simp]:
  "s_collector (delivery_moves env d s) = s_collector s" "s_sent (delivery_moves env d s) = s_sent s"
  "s_stop (delivery_moves env d s) = s_stop s" "s_main (delivery_moves env d s) = s_main s"
  by (simp_all add: delivery_moves_def prod.case_eq_if)

lemma collector_moves_frame [simp]:
  "s_delivery (collector_moves cfg sm c s) = s_delivery s" "s_emitted (collector_moves cfg sm c s) = s_emitted s"
  "s_stop (collector_moves cfg sm c s) = s_stop s" "s_main (collector_moves cfg sm c s) = s_main s"
  "s_out (collector_moves cfg sm c s) = s_out s" "s_world (collector_moves cfg sm c s) = s_world s"
  "s_collector (collector_moves cfg sm c s) = Some (snd (collector_step cfg sm (s_stop s) (s_queue s) c))"
  by (simp_all add: collector_moves_def prod.case_eq_if split: option.split)

lemma shutdown_output_frame [simp]:
  "s_collector (shutdown_output env n s) = s_collector s" "s_delivery (shutdown_output env n s) = s_delivery s"
  "s_sent (shutdown_output env n s) = s_sent s" "s_emitted (shutdown_output env n s) = s_emitted s"
  "s_stop (shutdown_output env n s) = s_stop s" "s_queue (shutdown_output env n s) = s_queue s"
  "s_main (shutdown_output env n s) = Returned n"
  by (simp_all add: shutdown_output_def prod.case_eq_if)

lemma complain_frame [simp]:
  "s_collector (complain msg s) = s_collector s" "s_delivery (complain msg s) = s_delivery s"
  "s_sent (complain msg s) = s_sent s" "s_emitted (complain msg s) = s_emitted s"
  "s_stop (complain msg s) = s_stop s" "s_queue (complain msg s) = s_queue s"
  "s_main (complain msg s) = s_main s" "s_out (complain msg s) = s_out s"
  "w_stdout (s_world (complain msg s)) = w_stdout (s_world s)"
  "w_posts (s_world (complain msg s)) = w_posts (s_world s)"
  by (simp_all add: complain_def eprint_def)

lemma take_cstr: "take (length (cstr s)) (s @ [NUL]) = cstr s"
  by (induction s) (auto simp: cstr_def)

text \<open>The collector's call is a put of the queue interface.\<close>

lemma enqueue_text_put:
  assumes "event_shape json"
  shows "enqueue_text now (Some q) json = (0, Some (put_msg now (cstr json) q))"
proof -
  let ?n = "length (cstr json)"
  have ok: "msg_ok (cstr json)" using assms by (rule shape_msg_ok)
  have "fill_entry now (json @ [NUL]) ?n e = fill_entry now (cstr json @ [NUL]) ?n e" for e
    by (simp only: fill_entry_def take_cstr) (simp add: take_cstr [unfolded take_append])
  then have "enqueue_locked now (json @ [NUL]) ?n q = enqueue_locked now (cstr json @ [NUL]) ?n q"
    by (simp add: enqueue_locked_def store_tail_def)
  then show ?thesis
    using ok by (simp add: enqueue_text_def put_msg_def queue_enqueue_def msg_ok_def)
qed

lemma enqueue_text_null [simp]: "enqueue_text now None json = (- 1, None)"
  by (simp add: enqueue_text_def queue_enqueue_def)

definition backlog :: "sys \<Rightarrow> cstring list" where
  "backlog s = (case s_queue s of None \<Rightarrow> [] | Some q \<Rightarrow> queue_msgs q)"

definition pending :: "sys \<Rightarrow> cstring list" where
  "pending s = (case s_delivery s of None \<Rightarrow> [] | Some d \<Rightarrow> batch_rest d)"

definition delivery_ok :: "delivery \<Rightarrow> bool" where
  "delivery_ok d \<longleftrightarrow> length (de_batch d) = 1000 \<and> 0 \<le> batch_count d \<and> batch_count d \<le> 1000"

text \<open>The delivery thread's call is a get of the queue interface.\<close>

lemma dequeue_get:
  assumes "queue_inv q" "length out = 1000"
  shows "\<exists>es q'. queue_dequeue_batch (Some q) (Some out) 1000 (Some c) =
      (0, Some q', Some (es @ drop (length es) out), Some (int (length es))) \<and>
    get_msgs 1000 q = (map entry_msg es, q') \<and> length es \<le> 1000"
proof -
  obtain es q' where r: "dequeue_loop 1000 q = (es, q')" by fastforce
  then have "length es \<le> 1000" using dequeue_loop_correct [OF assms(1) r] by simp
  with r show ?thesis by (intro exI [of _ es] exI [of _ q']) (simp add: queue_dequeue_batch_def get_msgs_def)
qed

section \<open>The invariant of the program\<close>

text \<open>Nothing is invented, duplicated or reordered on the way from the collector to the output, and
  the books balance.\<close>

definition queue_books :: "sys \<Rightarrow> event_queue \<Rightarrow> bool" where
  "queue_books s q \<longleftrightarrow> queue_inv q \<and> emitted_count q = of_nat (length (s_sent s)) \<and>
     dropped_count q + of_nat (length (s_emitted s @ pending s @ queue_msgs q)) = of_nat (length (s_sent s)) \<and>
     (length (s_sent s) \<le> MAX_QUEUE_DEPTH \<longrightarrow> dropped_count q = 0)"

definition sys_inv :: "sys \<Rightarrow> bool" where
  "sys_inv s \<longleftrightarrow>
     subseq (s_emitted s @ pending s @ backlog s) (s_sent s) \<and>
     (\<forall>q. s_queue s = Some q \<longrightarrow> queue_books s q) \<and>
     (\<forall>c. s_collector s = Some c \<longrightarrow> shape_inv c) \<and>
     (\<forall>d. s_delivery s = Some d \<longrightarrow> delivery_ok d) \<and>
     (s_main s \<in> {Create_Collector, Create_Delivery, Join_Abandoned} \<longrightarrow> s_delivery s = None)"

text \<open>A step of the collector, seen from the outside.\<close>

lemma collector_moves_eq:
  assumes "collector_step cfg sm (s_stop s) (s_queue s) c = (mo, c')" "shape_inv c"
  shows "collector_moves cfg sm c s =
    (case (mo, s_queue s) of
       (Some m, Some q) \<Rightarrow>
         s\<lparr>s_collector := Some c', s_queue := Some (put_msg (sm_realtime sm) (cstr m) q),
           s_sent := s_sent s @ [cstr m]\<rparr>
     | _ \<Rightarrow> s\<lparr>s_collector := Some c'\<rparr>)"
proof -
  have "\<And>m. mo = Some m \<Longrightarrow> event_shape m" using collector_step_shape [OF assms(2,1)] by simp
  then show ?thesis
    using assms(1) by (cases s; cases mo; cases "s_queue s") (auto simp: collector_moves_def enqueue_text_put)
qed

lemma put_books:
  assumes "queue_books s q" "msg_ok m" "length (queue_msgs q) \<le> length (s_sent s)"
  shows "queue_books (s\<lparr>s_sent := s_sent s @ [m]\<rparr>) (put_msg now m q)"
proof -
  let ?q = "put_msg now m q"
  have q: "queue_inv q" using assms(1) by (simp add: queue_books_def)
  have split: "d + of_nat (length (s_emitted s @ pending s @ ms)) =
      (d + of_nat (length ms)) + of_nat (length (s_emitted s @ pending s))" for d :: u64 and ms
    by (simp add: algebra_simps)
  have "dropped_count ?q + of_nat (length (s_emitted s @ pending s @ queue_msgs ?q)) =
      dropped_count q + of_nat (length (s_emitted s @ pending s @ queue_msgs q)) + 1"
    unfolding split evq.balance_put [OF q assms(2)] by (simp add: algebra_simps)
  then have "dropped_count ?q + of_nat (length (s_emitted s @ pending s @ queue_msgs ?q)) =
      of_nat (length (s_sent s)) + 1"
    using assms(1) by (simp only: queue_books_def)
  moreover have "dropped_count ?q = 0" if "length (s_sent s) < MAX_QUEUE_DEPTH"
    using that assms(1,3) evq.dropped_put [OF q assms(2), of now] by (simp add: queue_books_def)
  ultimately show ?thesis
    using assms(1) evq.inv_put [OF q assms(2), of now] evq.emitted_put [OF q assms(2), of now]
    by (simp add: queue_books_def pending_def algebra_simps)
qed

lemma collector_moves_inv:
  assumes "sys_inv s" "s_collector s = Some c"
  shows "sys_inv (collector_moves cfg sm c s)"
proof -
  obtain mo c' where st: "collector_step cfg sm (s_stop s) (s_queue s) c = (mo, c')" by fastforce
  have sc: "shape_inv c" using assms by (simp add: sys_inv_def)
  note shape = collector_step_shape [OF sc st]
  show ?thesis
  proof (cases "mo = None \<or> s_queue s = None")
    case True
    then have "collector_moves cfg sm c s = s\<lparr>s_collector := Some c'\<rparr>"
      using collector_moves_eq [OF st sc] by (auto split: option.split)
    then show ?thesis
      using assms(1) shape by (auto simp: sys_inv_def queue_books_def pending_def backlog_def)
  next
    case False
    then obtain m q where mq: "mo = Some m" "s_queue s = Some q" by auto
    let ?q = "put_msg (sm_realtime sm) (cstr m) q"
    have s': "collector_moves cfg sm c s =
        s\<lparr>s_collector := Some c', s_queue := Some ?q, s_sent := s_sent s @ [cstr m]\<rparr>"
      using collector_moves_eq [OF st sc] mq by simp
    have ok: "msg_ok (cstr m)" using shape mq(1) by (intro shape_msg_ok) simp
    have books: "queue_books s q" and sub: "subseq ((s_emitted s @ pending s) @ queue_msgs q) (s_sent s)"
      using assms(1) mq(2) by (simp_all add: sys_inv_def backlog_def)
    then have q: "queue_inv q" by (simp add: queue_books_def)
    note evq.conserve_put [OF q ok sub, of "sm_realtime sm"]
    moreover have "length (queue_msgs q) \<le> length (s_sent s)" using list_emb_length [OF sub] by simp
    note put_books [OF books ok this, of "sm_realtime sm"]
    ultimately show ?thesis
      using assms(1) shape unfolding s'
      by (auto simp: sys_inv_def queue_books_def pending_def backlog_def)
  qed
qed

lemma batch_rest_emit:
  assumes "delivery_ok d" "de_pc d = Emit i" "int i < batch_count d"
  shows "batch_rest d = entry_msg (de_batch d ! i) # batch_rest (d\<lparr>de_pc := Emit (Suc i)\<rparr>)"
proof -
  let ?es = "take (nat (batch_count d)) (de_batch d)"
  have "i < length ?es" using assms by (simp add: delivery_ok_def)
  then have "drop i ?es = ?es ! i # drop (Suc i) ?es" by (rule Cons_nth_drop_Suc [symmetric])
  then show ?thesis using assms(2,3) by (simp add: batch_rest_def)
qed

text \<open>A step of the delivery thread, seen from the outside: it emits the head of what it still has
  to emit, or takes the oldest messages off the queue, or does neither.\<close>

lemma delivery_moves_cases:
  assumes "s_delivery s = Some d" "delivery_ok d" "\<And>q. s_queue s = Some q \<Longrightarrow> queue_inv q"
    "s' = delivery_moves env d s"
  shows "\<exists>d'. s_delivery s' = Some d' \<and> delivery_ok d' \<and> s_sent s' = s_sent s \<and>
    s_collector s' = s_collector s \<and> s_stop s' = s_stop s \<and> s_main s' = s_main s \<and>
    ((s_queue s' = s_queue s \<and> s_emitted s' @ batch_rest d' = s_emitted s @ batch_rest d) \<or>
     (\<exists>q q' ms. s_queue s = Some q \<and> s_queue s' = Some q' \<and> de_pc d = Dequeue \<and> get_msgs 1000 q = (ms, q') \<and>
        s_emitted s' = s_emitted s \<and> batch_rest d = [] \<and> batch_rest d' = ms))"
proof (cases "de_pc d")
  case (Emit i)
  obtain rc g' w' where o: "output_emit_event env (Some (entry_msg (de_batch d ! i))) (s_out s) (s_world s) = (rc, g', w')"
    by (metis prod.exhaust)
  show ?thesis
  proof (cases "int i < batch_count d")
    case True
    then show ?thesis using assms Emit o batch_rest_emit [OF assms(2) Emit True]
      by (simp add: delivery_moves_def delivery_step.simps delivery_ok_def)
  next
    case False
    then show ?thesis using assms Emit
      by (simp add: delivery_moves_def delivery_step.simps delivery_ok_def batch_rest_def)
  qed
next
  case Dequeue
  show ?thesis
  proof (cases "s_queue s")
    case None
    then show ?thesis using assms Dequeue
      by (simp add: delivery_moves_def delivery_step.simps delivery_ok_def batch_rest_def queue_dequeue_batch_def)
  next
    case (Some q)
    from dequeue_get [OF assms(3) [OF Some], of "de_batch d" "batch_count d"] assms(2) obtain es q' where
      r: "queue_dequeue_batch (Some q) (Some (de_batch d)) 1000 (Some (batch_count d)) =
        (0, Some q', Some (es @ drop (length es) (de_batch d)), Some (int (length es)))"
        "get_msgs 1000 q = (map entry_msg es, q')" "length es \<le> 1000"
      by (auto simp: delivery_ok_def)
    then show ?thesis using assms Dequeue Some
      by (auto simp: delivery_moves_def delivery_step.simps delivery_ok_def batch_rest_def)
  qed
qed (use assms in \<open>auto simp: delivery_moves_def delivery_step.simps delivery_ok_def batch_rest_def
    split: prod.splits\<close>)

lemma delivery_moves_inv:
  assumes "sys_inv s" "s_delivery s = Some d"
  shows "sys_inv (delivery_moves env d s)"
proof -
  let ?s = "delivery_moves env d s"
  have inv: "delivery_ok d" "\<And>q. s_queue s = Some q \<Longrightarrow> queue_inv q"
    using assms by (auto simp: sys_inv_def queue_books_def)
  obtain d' where d': "s_delivery ?s = Some d'" "delivery_ok d'" "s_sent ?s = s_sent s"
      "s_collector ?s = s_collector s" and main: "s_main ?s = s_main s"
    and move: "(s_queue ?s = s_queue s \<and> s_emitted ?s @ batch_rest d' = s_emitted s @ batch_rest d) \<or>
     (\<exists>q q' ms. s_queue s = Some q \<and> s_queue ?s = Some q' \<and> de_pc d = Dequeue \<and> get_msgs 1000 q = (ms, q') \<and>
        s_emitted ?s = s_emitted s \<and> batch_rest d = [] \<and> batch_rest d' = ms)"
    using delivery_moves_cases [OF assms(2) inv refl] by blast
  have pend: "pending ?s = batch_rest d'" "pending s = batch_rest d"
    using d'(1) assms(2) by (simp_all add: pending_def)
  from move show ?thesis
  proof (elim disjE exE conjE)
    assume same: "s_queue ?s = s_queue s" "s_emitted ?s @ batch_rest d' = s_emitted s @ batch_rest d"
    have assoc: "xs @ ys @ zs = (xs @ ys) @ zs" for xs ys zs :: "cstring list" by simp
    show ?thesis
      using assms(1) same(1)
      unfolding sys_inv_def queue_books_def pend backlog_def
      by (simp only: assoc same d'(1,3,4) main assms(2) option.inject) (use d'(2) in blast)
  next
    fix q q' ms
    assume q: "s_queue s = Some q" "s_queue ?s = Some q'" "get_msgs 1000 q = (ms, q')"
      "s_emitted ?s = s_emitted s" "batch_rest d = []" "batch_rest d' = ms"
    have b: "queue_books s q" using assms(1) q(1) by (simp add: sys_inv_def)
    then have qi: "queue_inv q" by (simp add: queue_books_def)
    have split: "ms @ queue_msgs q' = queue_msgs q"
      using evq.conserve_get [OF qi, of "[]" 1000] q(3) by simp
    have "length ms + q_count q' = q_count q" using arg_cong [OF split, of length] by simp
    then have "(of_nat (length ms) :: u64) + of_nat (q_count q') = of_nat (q_count q)"
      by (metis of_nat_add)
    moreover have "queue_inv q'" "dropped_count q' = dropped_count q" "emitted_count q' = emitted_count q"
      using evq.inv_get [OF qi, of 1000] evq.dropped_get [OF qi, of 1000] evq.emitted_get [OF qi, of 1000] q(3)
      by simp_all
    moreover have "subseq (s_emitted s @ queue_msgs q) (s_sent s)"
      using assms(1) q(1,5) by (simp add: sys_inv_def pend backlog_def)
    ultimately show ?thesis
      using assms b d' main q
      by (simp only: sys_inv_def queue_books_def pend backlog_def split option.simps append_Nil) simp
  qed
qed

lemma subseq_prefix: "subseq (xs @ ys) zs \<Longrightarrow> subseq xs zs"
  using list_emb_append2 [of "(=)" xs xs ys] by (meson prefix_imp_subseq prefixI subseq_order.trans)

lemma sys_step_inv: "sys_inv s \<Longrightarrow> sys_step env cfg s a s' \<Longrightarrow> sys_inv s'"
proof (erule sys_stepE, goal_cases)
  case (1 c sm)
  then show ?case by (simp add: collector_moves_inv)
next
  case (2 d)
  then show ?case by (simp add: delivery_moves_inv)
next
  case (10 b)
  then show ?case using subseq_prefix [of "s_emitted s @ pending s" "backlog s" "s_sent s"]
    by (auto simp: sys_inv_def pending_def backlog_def shutdown_output_def split: prod.split)
qed (auto simp: sys_inv_def queue_books_def pending_def backlog_def delivery_ok_def
    delivery_start_def batch_rest_def)

section \<open>Counting what is sent\<close>

definition count_inv :: "syswatch_config \<Rightarrow> sys \<Rightarrow> bool" where
  "count_inv cfg s \<longleftrightarrow> sys_inv s \<and> (s_main s = Create_Collector \<longrightarrow> s_collector s = None) \<and>
     (case s_collector s of
        None \<Rightarrow> s_sent s = []
      | Some c \<Rightarrow> pass_inv cfg c \<and> length (s_sent s) \<le> sends_bound cfg c)"

lemma count_inv_step:
  assumes "count_inv cfg s" "sys_step env cfg s a s'"
  shows "count_inv cfg s'"
proof -
  have "sys_inv s'" using assms by (auto simp: count_inv_def intro: sys_step_inv)
  note inv' = this and old = assms(1)
  from assms(2) show ?thesis
  proof (cases rule: sys_step.cases)
    case (collector c sm)
    obtain mo c' where st: "collector_step cfg sm (s_stop s) (s_queue s) c = (mo, c')" by fastforce
    have inv: "shape_inv c" "pass_inv cfg c"
      using assms(1) collector by (simp_all add: count_inv_def sys_inv_def)
    have "length (s_sent s') \<le> length (s_sent s) + of_bool (mo \<noteq> None)"
      using collector(2) by (auto simp: collector_moves_eq [OF st inv(1)] split: option.splits)
    then show ?thesis
      using collector inv' assms(1) st pass_inv_step [OF inv(2) st] sends_bound_step [OF inv(2) st]
      by (simp add: count_inv_def)
  next
    case create_collector
    then show ?thesis using inv' old
      by (cases "s_collector s") (simp_all add: count_inv_def sends_bound_def collector_start_def pass_inv_def)
  qed (use inv' old in \<open>cases "s_collector s"; simp add: count_inv_def\<close>)+
qed

section \<open>Runs without a signal\<close>

definition no_signal :: "action \<Rightarrow> bool" where
  "no_signal a \<longleftrightarrow> a \<noteq> Signal"

text \<open>The delivery thread leaves its loop only with nothing left to take.\<close>

definition quiet_inv :: "sys \<Rightarrow> bool" where
  "quiet_inv s \<longleftrightarrow> sys_inv s \<and>
     (s_main s \<in> {Create_Collector, Create_Delivery, Join_Collector} \<longrightarrow> \<not> s_stop s) \<and>
     (s_main s \<in> {Join_Delivery, Shutdown, Returned 0} \<longrightarrow> collector_done s) \<and>
     (s_main s = Shutdown \<longrightarrow> delivery_done s) \<and>
     (s_delivery s \<noteq> None \<longrightarrow> s_main s \<in> {Join_Collector, Join_Delivery, Shutdown, Returned 0}) \<and>
     (\<forall>d. s_delivery s = Some d \<longrightarrow>
        (de_pc d = Check_Queue \<longrightarrow> s_stop s) \<and>
        (de_pc d \<in> {Final_Flush, Delivery_Exit} \<longrightarrow> backlog s = [] \<and> (s_stop s \<or> s_queue s = None)))"

lemma quiet_delivery:
  assumes "quiet_inv s" "s_delivery s = Some d" "de_pc d \<noteq> Delivery_Exit"
  shows "quiet_inv (delivery_moves env d s)"
proof -
  let ?s = "delivery_moves env d s"
  have inv: "sys_inv ?s" using assms by (simp add: quiet_inv_def delivery_moves_inv)
  obtain d' q' g' w' where st: "delivery_step env (s_stop s) (d, s_queue s, s_out s, s_world s) = (d', q', g', w')"
    by (metis prod.exhaust)
  then have s': "s_delivery ?s = Some d'" "s_queue ?s = q'" by (simp_all add: delivery_moves_def)
  have "(de_pc d' = Check_Queue \<longrightarrow> s_stop s) \<and>
    (de_pc d' \<in> {Final_Flush, Delivery_Exit} \<longrightarrow> backlog ?s = [] \<and> (s_stop s \<or> q' = None))"
  proof (cases "de_pc d")
    case Check_Queue
    then have "s_stop s" using assms(1,2) by (simp add: quiet_inv_def)
    moreover have "backlog ?s = (case q' of None \<Rightarrow> [] | Some q \<Rightarrow> queue_msgs q)"
      by (simp add: backlog_def s')
    ultimately show ?thesis using st Check_Queue
      by (cases "s_queue s")
        (auto simp: delivery_step.simps queue_size_def queue_msgs_def queue_entries_def split: if_splits option.splits)
  next
    case Final_Flush
    then show ?thesis using st assms(1,2)
      by (auto simp: delivery_step.simps quiet_inv_def backlog_def s' split: prod.splits)
  qed (use st assms(3) in \<open>auto simp: delivery_step.simps split: prod.splits if_splits\<close>)
  then show ?thesis using assms inv s' by (auto simp: quiet_inv_def collector_done_def delivery_done_def)
qed

lemma quiet_collector:
  assumes "quiet_inv s" "s_collector s = Some c" "co_pc c \<noteq> Collector_Exit"
  shows "quiet_inv (collector_moves cfg sm c s)"
proof -
  let ?s = "collector_moves cfg sm c s"
  have inv: "sys_inv ?s" using assms by (simp add: quiet_inv_def collector_moves_inv)
  have nd: "\<not> collector_done s" using assms(2,3) by (simp add: collector_done_def)
  have "s_queue ?s = None \<and> backlog ?s = []" if "s_queue s = None"
    using that by (simp add: collector_moves_def backlog_def prod.case_eq_if split: option.split)
  moreover have "s_queue s = None" if "s_delivery s = Some d" "de_pc d \<in> {Final_Flush, Delivery_Exit}" for d
    using that assms(1) nd by (auto simp: quiet_inv_def)
  ultimately show ?thesis using assms inv nd
    by (auto simp: quiet_inv_def delivery_done_def)
qed

lemma quiet_step:
  assumes "quiet_inv s" "sys_step env cfg s a s'" "no_signal a"
  shows "quiet_inv s'"
  using assms(2)
proof (cases rule: sys_step.cases)
  case (collector c sm)
  then show ?thesis using assms(1) by (simp add: quiet_collector)
next
  case (delivery d)
  then show ?thesis using assms(1) by (simp add: quiet_delivery)
next
  case signal
  then show ?thesis using assms(3) by (simp add: no_signal_def)
qed (use assms(1) sys_step_inv [OF _ assms(2)] in
    \<open>auto simp: quiet_inv_def collector_done_def delivery_done_def delivery_start_def backlog_def\<close>)

section \<open>Draining the queue\<close>

lemma delivery_moves_conserve:
  assumes "sys_inv s" "s_delivery s = Some d" "s' = delivery_moves env d s"
  shows "s_emitted s' @ pending s' @ backlog s' = s_emitted s @ pending s @ backlog s"
    and "s_delivery s' \<noteq> None"
proof -
  have inv: "delivery_ok d" "\<And>q. s_queue s = Some q \<Longrightarrow> queue_inv q"
    using assms by (auto simp: sys_inv_def queue_books_def)
  obtain d' where d': "s_delivery s' = Some d'"
    and move: "(s_queue s' = s_queue s \<and> s_emitted s' @ batch_rest d' = s_emitted s @ batch_rest d) \<or>
     (\<exists>q q' ms. s_queue s = Some q \<and> s_queue s' = Some q' \<and> de_pc d = Dequeue \<and> get_msgs 1000 q = (ms, q') \<and>
        s_emitted s' = s_emitted s \<and> batch_rest d = [] \<and> batch_rest d' = ms)"
    using delivery_moves_cases [OF assms(2) inv assms(3)] by blast
  show "s_delivery s' \<noteq> None" using d' by simp
  have assoc: "xs @ ys @ zs = (xs @ ys) @ zs" for xs ys zs :: "cstring list" by simp
  from move show "s_emitted s' @ pending s' @ backlog s' = s_emitted s @ pending s @ backlog s"
  proof (elim disjE exE conjE)
    assume "s_queue s' = s_queue s" "s_emitted s' @ batch_rest d' = s_emitted s @ batch_rest d"
    then show ?thesis unfolding assoc using d' assms(2) by (simp add: pending_def backlog_def)
  next
    fix q q' ms
    assume q: "s_queue s = Some q" "s_queue s' = Some q'" "get_msgs 1000 q = (ms, q')"
      "s_emitted s' = s_emitted s" "batch_rest d = []" "batch_rest d' = ms"
    then show ?thesis using evq.conserve_get [OF inv(2) [OF q(1)], of "s_emitted s" 1000] d' assms(2)
      by (simp add: pending_def backlog_def)
  qed
qed

definition delivery_left :: "sys \<Rightarrow> nat" where
  "delivery_left s =
     8 * length (backlog s) + 2 * length (pending s) +
     (case s_delivery s of
        None \<Rightarrow> 0
      | Some d \<Rightarrow>
          (case de_pc d of
             Delivery_Exit \<Rightarrow> 0 | Final_Flush \<Rightarrow> 1 | Check_Queue \<Rightarrow> 2 | Check_Stop \<Rightarrow> 3 | Flush \<Rightarrow> 4 | Pause \<Rightarrow> 4
           | Emit i \<Rightarrow> 5 | Dequeue \<Rightarrow> if backlog s = [] then 5 else 1))"

lemma delivery_left_step:
  assumes "sys_inv s" "s_delivery s = Some d" "de_pc d \<noteq> Delivery_Exit" "s_stop s"
  shows "delivery_left (delivery_moves env d s) < delivery_left s"
proof -
  have inv: "delivery_ok d" "\<And>q. s_queue s = Some q \<Longrightarrow> queue_inv q"
    using assms by (auto simp: sys_inv_def queue_books_def)
  show ?thesis
  proof (cases "de_pc d")
    case (Emit i)
    show ?thesis
    proof (cases "int i < batch_count d")
      case True
      then show ?thesis using assms(2) Emit batch_rest_emit [OF inv(1) Emit True]
        by (simp add: delivery_left_def delivery_moves_def delivery_step.simps prod.case_eq_if pending_def backlog_def)
    next
      case False
      then show ?thesis using assms(2) Emit
        by (simp add: delivery_left_def delivery_moves_def delivery_step.simps pending_def backlog_def batch_rest_def)
    qed
  next
    case Dequeue
    show ?thesis
    proof (cases "s_queue s")
      case None
      then show ?thesis using assms(2) Dequeue
        by (simp add: delivery_left_def delivery_moves_def delivery_step.simps pending_def backlog_def
            batch_rest_def queue_dequeue_batch_def)
    next
      case (Some q)
      from dequeue_get [OF inv(2) [OF Some], of "de_batch d" "batch_count d"] inv(1) obtain es q' where
        r: "queue_dequeue_batch (Some q) (Some (de_batch d)) 1000 (Some (batch_count d)) =
          (0, Some q', Some (es @ drop (length es) (de_batch d)), Some (int (length es)))"
          "get_msgs 1000 q = (map entry_msg es, q')"
        by (auto simp: delivery_ok_def)
      have es: "map entry_msg es = take 1000 (queue_msgs q)" "queue_msgs q' = drop 1000 (queue_msgs q)"
        using evq.fst_get [OF inv(2) [OF Some], of 1000] evq.contents_get [OF inv(2) [OF Some], of 1000] r(2)
        by simp_all
      then have "length es = min 1000 (q_count q)" "q_count q' = q_count q - 1000"
        by (metis length_map length_queue_msgs length_take min.commute) (metis es(2) length_drop length_queue_msgs)
      moreover have "queue_msgs q = [] \<longleftrightarrow> q_count q = 0" by (simp add: queue_msgs_def queue_entries_def)
      ultimately show ?thesis using assms(2) Dequeue Some r(1)
        by (cases es) (auto simp: delivery_left_def delivery_moves_def delivery_step.simps pending_def
            backlog_def batch_rest_def)
    qed
  next
    case Check_Queue
    then show ?thesis using assms(2)
      by (cases "s_queue s") (auto simp: delivery_left_def delivery_moves_def delivery_step.simps pending_def
          backlog_def batch_rest_def queue_size_def queue_msgs_def queue_entries_def)
  qed (use assms in \<open>simp_all add: delivery_left_def delivery_moves_def delivery_step.simps pending_def
      backlog_def batch_rest_def prod.case_eq_if\<close>)
qed

section \<open>Threads that run alone\<close>

lemma run_trans:
  assumes "sys_run env cfg P s1 s2" "sys_run env cfg P s2 s3"
  shows "sys_run env cfg P s1 s3"
  using assms(2,1) by (induction rule: sys_run.induct) (auto intro: sys_run.run_step)

lemma run_one: "sys_step env cfg s a s' \<Longrightarrow> P a \<Longrightarrow> sys_run env cfg P s s'"
  by (rule sys_run.run_step [OF sys_run.run_refl])

lemma run_mono: "sys_run env cfg P s s' \<Longrightarrow> (\<And>a. P a \<Longrightarrow> Q a) \<Longrightarrow> sys_run env cfg Q s s'"
  by (induction rule: sys_run.induct) (auto intro: sys_run.intros)

text \<open>Once \<^verbatim>\<open>g_stop\<close> is set, the delivery thread empties the queue and ends.\<close>

definition draining :: "sys \<Rightarrow> bool" where
  "draining s \<longleftrightarrow> sys_inv s \<and> s_stop s \<and>
     (case s_delivery s of
        None \<Rightarrow> False
      | Some d \<Rightarrow> de_pc d \<in> {Final_Flush, Delivery_Exit} \<longrightarrow> backlog s = [])"

lemma draining_step:
  assumes "draining s" "s_delivery s = Some d" "de_pc d \<noteq> Delivery_Exit"
  shows "draining (delivery_moves env d s)"
proof -
  let ?s = "delivery_moves env d s"
  obtain d' q' g' w' where st: "delivery_step env (s_stop s) (d, s_queue s, s_out s, s_world s) = (d', q', g', w')"
    by (metis prod.exhaust)
  then have s': "s_delivery ?s = Some d'" "s_queue ?s = q'" by (simp_all add: delivery_moves_def)
  then have b: "backlog ?s = (case q' of None \<Rightarrow> [] | Some q \<Rightarrow> queue_msgs q)" by (simp add: backlog_def)
  have "de_pc d' \<in> {Final_Flush, Delivery_Exit} \<longrightarrow> backlog ?s = []"
  proof (cases "de_pc d")
    case Check_Queue
    then show ?thesis using st unfolding b
      by (cases "s_queue s")
        (auto simp: delivery_step.simps queue_size_def queue_msgs_def queue_entries_def split: if_splits option.splits)
  next
    case Final_Flush
    then show ?thesis using st assms(1,2) unfolding b
      by (auto simp: delivery_step.simps draining_def backlog_def split: prod.splits)
  qed (use st assms(3) in \<open>auto simp: delivery_step.simps split: prod.splits if_splits\<close>)
  then show ?thesis using assms s' by (simp add: draining_def delivery_moves_inv)
qed

lemma drain:
  "draining s \<Longrightarrow> \<exists>s'. sys_run env cfg (\<lambda>a. a = Delivery_Step) s s' \<and> delivery_done s' \<and> backlog s' = [] \<and>
     s_emitted s' = s_emitted s @ pending s @ backlog s \<and> s_sent s' = s_sent s \<and> sys_inv s' \<and>
     s_collector s' = s_collector s \<and> s_main s' = s_main s \<and> s_stop s'"
proof (induction s rule: measure_induct_rule [of delivery_left])
  case (less s)
  then obtain d where d: "s_delivery s = Some d" and inv: "sys_inv s" "s_stop s"
    by (auto simp: draining_def split: option.splits)
  show ?case
  proof (cases "de_pc d = Delivery_Exit")
    case True
    then show ?thesis using less.prems d
      by (intro exI [of _ s]) (auto simp: draining_def delivery_done_def pending_def batch_rest_def intro: sys_run.run_refl)
  next
    case False
    let ?s = "delivery_moves env d s"
    have step: "sys_run env cfg (\<lambda>a. a = Delivery_Step) s ?s"
      by (rule run_one [OF sys_step.delivery [OF d False]]) simp
    from less.IH [OF delivery_left_step [OF inv(1) d False inv(2)] draining_step [OF less.prems d False]]
    obtain s' where "sys_run env cfg (\<lambda>a. a = Delivery_Step) ?s s'" "delivery_done s'" "backlog s' = []"
      "s_emitted s' = s_emitted ?s @ pending ?s @ backlog ?s" "s_sent s' = s_sent ?s" "sys_inv s'"
      "s_collector s' = s_collector ?s" "s_main s' = s_main ?s" "s_stop s'" by blast
    with run_trans [OF step] delivery_moves_conserve(1) [OF inv(1) d refl] show ?thesis
      by (intro exI [of _ s']) simp
  qed
qed

lemma collector_finishes:
  assumes "0 < iterations cfg"
  shows "s_collector s = Some c \<Longrightarrow> pass_inv cfg c \<Longrightarrow> shape_inv c \<Longrightarrow>
    \<exists>s'. sys_run env cfg (\<lambda>a. a = Collector_Step sm) s s' \<and> collector_done s' \<and> s_main s' = s_main s \<and>
      s_delivery s' = s_delivery s \<and> s_stop s' = s_stop s \<and> (s_queue s' = None \<longleftrightarrow> s_queue s = None)"
proof (induction "collector_left cfg c" arbitrary: s c rule: less_induct)
  case less
  show ?case
  proof (cases "co_pc c = Collector_Exit")
    case True
    then show ?thesis using less.prems
      by (intro exI [of _ s]) (auto simp: collector_done_def intro: sys_run.run_refl)
  next
    case False
    obtain mo c' where st: "collector_step cfg sm (s_stop s) (s_queue s) c = (mo, c')" by fastforce
    let ?s = "collector_moves cfg sm c s"
    have q: "s_queue ?s = None \<longleftrightarrow> s_queue s = None"
      by (auto simp: collector_moves_eq [OF st less.prems(3)] split: option.split)
    have step: "sys_run env cfg (\<lambda>a. a = Collector_Step sm) s ?s"
      by (rule run_one [OF sys_step.collector [OF less.prems(1) False]]) simp
    have "s_collector ?s = Some c'" using st by simp
    note less.hyps [OF collector_left_step [OF less.prems(2) st False assms] this
        pass_inv_step [OF less.prems(2) st] conjunct1 [OF collector_step_shape [OF less.prems(3) st]]]
    then obtain s' where r: "sys_run env cfg (\<lambda>a. a = Collector_Step sm) ?s s'"
      and s': "collector_done s'" "s_main s' = s_main ?s" "s_delivery s' = s_delivery ?s" "s_stop s' = s_stop ?s"
      "s_queue s' = None \<longleftrightarrow> s_queue ?s = None" by (elim exE conjE)
    show ?thesis using s' q by (intro exI [of _ s'] conjI run_trans [OF step r]) simp_all
  qed
qed

section \<open>The queue the program starts with\<close>

text \<open>What \<^verbatim>\<open>queue_create\<close> returns, NULL included.\<close>

definition created :: "event_queue option \<Rightarrow> bool" where
  "created qp \<longleftrightarrow> (\<exists>mem mutex_rc cond_rc. qp = queue_create mem mutex_rc cond_rc \<and>
     (\<forall>q i. mem = Some q \<longrightarrow> length (json_data (entries q i)) = MAX_EVENT_SIZE))"

lemma created_queue:
  assumes "created (Some q)"
  shows "queue_inv q \<and> queue_msgs q = [] \<and> q_count q = 0 \<and> dropped_count q = 0 \<and> emitted_count q = 0"
proof -
  obtain mem m c where "Some q = queue_create mem m c"
    "\<forall>q i. mem = Some q \<longrightarrow> length (json_data (entries q i)) = MAX_EVENT_SIZE"
    using assms by (auto simp: created_def)
  with queue_create_spec [of mem m c] show ?thesis
    using length_queue_msgs [of q] by (auto split: option.splits simp del: length_queue_msgs)
qed

lemma created_zeroed: "created (Some zeroed_queue)"
  unfolding created_def
  by (rule exI [of _ "Some zeroed_queue"], rule exI [of _ 0], rule exI [of _ 0])
    (simp add: queue_create_def zeroed_queue_def Let_def)

lemma sys_start_simps [simp]:
  "s_queue (sys_start qp g w) = qp" "s_stop (sys_start qp g w) = False"
  "s_collector (sys_start qp g w) = None" "s_delivery (sys_start qp g w) = None"
  "s_main (sys_start qp g w) = Create_Collector" "s_out (sys_start qp g w) = g"
  "s_world (sys_start qp g w) = w" "s_sent (sys_start qp g w) = []" "s_emitted (sys_start qp g w) = []"
  by (simp_all add: sys_start_def)

lemma start_inv:
  assumes "created qp"
  shows "sys_inv (sys_start qp g w)" "count_inv cfg (sys_start qp g w)" "quiet_inv (sys_start qp g w)"
proof -
  show "sys_inv (sys_start qp g w)"
    using assms created_queue
    by (cases qp) (auto simp: sys_inv_def queue_books_def pending_def backlog_def)
  then show "count_inv cfg (sys_start qp g w)" "quiet_inv (sys_start qp g w)"
    by (simp_all add: count_inv_def quiet_inv_def)
qed

lemma run_sys_inv:
  "sys_run env cfg P s s' \<Longrightarrow> sys_inv s \<Longrightarrow> sys_inv s'"
  by (erule run_invariant) (auto intro: sys_step_inv)

lemma run_count_inv: "sys_run env cfg P s s' \<Longrightarrow> count_inv cfg s \<Longrightarrow> count_inv cfg s'"
  by (erule run_invariant) (auto intro: count_inv_step)

lemma run_quiet_inv: "sys_run env cfg no_signal s s' \<Longrightarrow> quiet_inv s \<Longrightarrow> quiet_inv s'"
  by (erule run_invariant) (auto intro: quiet_step)

section \<open>A complete run\<close>

lemma sent_grows: "sys_run env cfg P s s' \<Longrightarrow> prefix (s_sent s) (s_sent s')"
proof (induction rule: sys_run.induct)
  case (run_step s s1 a s2)
  from run_step(2) have "prefix (s_sent s1) (s_sent s2)"
    by (cases rule: sys_step.cases)
      (auto simp: collector_moves_def prod.case_eq_if split: option.split)
  with run_step show ?case by (auto intro: prefix_order.trans)
qed simp

lemma first_event:
  assumes "s_main s = Join_Collector" "s_collector s = Some collector_start" "s_queue s = Some q"
  shows "\<exists>c. s_collector (collector_moves cfg sm collector_start s) = Some c \<and> co_pc c = Baseline \<and>
    pass_inv cfg c \<and> shape_inv c \<and>
    s_sent (collector_moves cfg sm collector_start s) = s_sent s @
      [cstr (warming_up_event (wall_stamp (sm_moment sm)) (host_text cfg (mo_hostname (sm_moment sm))))] \<and>
    s_queue (collector_moves cfg sm collector_start s) \<noteq> None"
proof -
  obtain mo c where st: "collector_step cfg sm (s_stop s) (s_queue s) collector_start = (mo, c)" by fastforce
  then have "mo = Some (warming_up_event (wall_stamp (sm_moment sm)) (host_text cfg (mo_hostname (sm_moment sm))))"
    "co_pc c = Baseline"
    by (auto simp: collector_step.simps collector_start_def Let_def)
  with st pass_inv_step [OF _ st] collector_step_shape [OF _ st] assms show ?thesis
    by (simp add: collector_moves_eq [OF st])
qed

lemma delivery_keeps_queue:
  assumes "sys_run env cfg (\<lambda>a. a = Delivery_Step) s s'" "s_queue s \<noteq> None" "sys_inv s"
  shows "s_queue s' \<noteq> None"
proof -
  have "s_queue s' \<noteq> None \<and> sys_inv s'"
    using assms(1)
  proof (rule run_invariant)
    fix s a s' assume *: "s_queue s \<noteq> None \<and> sys_inv s" "sys_step env cfg s a s'" "a = Delivery_Step"
    then obtain d where d: "s_delivery s = Some d" "s' = delivery_moves env d s" by (auto elim: sys_stepE)
    have "delivery_ok d" "\<And>q. s_queue s = Some q \<Longrightarrow> queue_inv q"
      using * d(1) by (auto simp: sys_inv_def queue_books_def)
    from delivery_moves_cases [OF d(1) this d(2)] * sys_step_inv [OF _ *(2)]
    show "s_queue s' \<noteq> None \<and> sys_inv s'" by auto
  qed (use assms in simp)
  then show ?thesis by simp
qed

text \<open>Both threads are created, the collector runs to its end, with the same answers in each step,
  then the delivery thread.\<close>

definition calm :: "sample \<Rightarrow> action \<Rightarrow> bool" where
  "calm sm a = (case a of Collector_Step sm' \<Rightarrow> sm' = sm | Signal \<Rightarrow> False | _ \<Rightarrow> True)"

lemma calm_no_signal: "calm sm a \<Longrightarrow> no_signal a"
  by (auto simp: calm_def no_signal_def)

lemma complete_run:
  assumes "created (Some q)" "0 < iterations cfg"
  shows "\<exists>s q'. sys_run env cfg (calm sm) (sys_start (Some q) g w) s \<and> s_main s = Shutdown \<and>
    s_queue s = Some q' \<and> s_sent s \<noteq> [] \<and> backlog s = []"
proof -
  let ?b = "replicate 1000 undefined :: event_queue_entry list"
  let ?s0 = "sys_start (Some q) g w"
  let ?s1 = "?s0\<lparr>s_collector := Some collector_start, s_main := Create_Delivery\<rparr>"
  let ?s2 = "?s1\<lparr>s_delivery := Some (delivery_start ?b (s_queue ?s1)), s_main := Join_Collector\<rparr>"
  let ?s3 = "collector_moves cfg sm collector_start ?s2"
  have 1: "sys_run env cfg (calm sm) ?s0 ?s1"
    by (rule run_one [OF sys_step.create_collector]) (simp_all add: calm_def)
  have 2: "sys_run env cfg (calm sm) ?s1 ?s2"
    by (rule run_one [OF sys_step.create_delivery]) (simp_all add: calm_def)
  have 3: "sys_run env cfg (calm sm) ?s2 ?s3"
    by (rule run_one [OF sys_step.collector]) (simp_all add: calm_def collector_start_def)
  obtain c where c: "s_collector ?s3 = Some c" "pass_inv cfg c" "shape_inv c" "s_sent ?s3 \<noteq> []" "s_queue ?s3 \<noteq> None"
    using first_event [of ?s2 q cfg sm] by auto
  obtain s4 where 4: "sys_run env cfg (\<lambda>a. a = Collector_Step sm) ?s3 s4" "collector_done s4"
    "s_main s4 = Join_Collector" "s_delivery s4 = Some (delivery_start ?b (Some q))" "s_queue s4 \<noteq> None"
    using collector_finishes [OF assms(2) c(1-3), of env sm] c(5) by auto
  let ?s5 = "s4\<lparr>s_stop := True, s_main := Join_Delivery\<rparr>"
  have 5: "sys_run env cfg (calm sm) s4 ?s5"
    by (rule run_one [OF sys_step.join_collector]) (simp_all add: 4 calm_def)
  have 34: "sys_run env cfg (calm sm) ?s3 s4"
    using 4(1) by (rule run_mono) (simp add: calm_def)
  note run = run_trans [OF 1 run_trans [OF 2 run_trans [OF 3 run_trans [OF 34 5]]]]
  have "sys_inv ?s5" using run_sys_inv [OF run] start_inv(1) [OF assms(1)] by simp
  then have "draining ?s5" using 4(4) by (simp add: draining_def delivery_start_def)
  from drain [OF this, of env cfg] obtain s6 where 6: "sys_run env cfg (\<lambda>a. a = Delivery_Step) ?s5 s6"
    "delivery_done s6" "backlog s6 = []" "s_main s6 = Join_Delivery" by auto
  let ?s7 = "s6\<lparr>s_main := Shutdown\<rparr>"
  have 7: "sys_run env cfg (calm sm) s6 ?s7"
    by (rule run_one [OF sys_step.join_delivery]) (simp_all add: 6 calm_def)
  have 56: "sys_run env cfg (calm sm) ?s5 s6" using 6(1) by (rule run_mono) (simp add: calm_def)
  have "s_sent s6 \<noteq> []"
    using sent_grows [OF run_trans [OF 34 run_trans [OF 5 56]]] c(4) by (auto simp: prefix_def)
  moreover have "s_queue s6 \<noteq> None"
    using delivery_keeps_queue [OF 6(1)] 4(5) \<open>sys_inv ?s5\<close> by simp
  moreover have "backlog ?s7 = []" using 6(3) by (simp add: backlog_def)
  ultimately show ?thesis
    using run_trans [OF run run_trans [OF 56 7]] by (intro exI [of _ ?s7]) auto
qed

lemma same_length_u64:
  assumes "(of_nat m :: u64) = of_nat n" "m \<le> n" "n < 2 ^ 64"
  shows "m = n"
proof -
  have "m < 2 ^ LENGTH(64)" "n < 2 ^ LENGTH(64)" using assms(2,3) by simp_all
  from of_nat_inverse [OF assms(1) this(1)] of_nat_inverse [OF refl this(2)]
  show ?thesis by (rule trans [OF sym])
qed

end
