(* ===== verification/Sinks.thy ===== *)
theory Sinks
  imports Runtime
begin

text \<open>
  The contract between the delivery thread and the output layer, and what it gives for the whole
  program: the three backends of \<^verbatim>\<open>src/output.c\<close> are three sinks.

  A sink is a predicate \<open>live\<close> on the output state and the world that says where the strings
  passed to \<^verbatim>\<open>output_emit_event\<close> so far have gone, and one, \<open>final\<close>, for the world after
  \<^verbatim>\<open>output_shutdown\<close>. \<open>event_sink\<close> lists the laws; its client lemma \<open>run_sink\<close> carries
  the predicate through any run of \<open>sys_step\<close>.
\<close>

section \<open>The contract\<close>

locale event_sink =
  fixes env :: output_env
    and live :: "output_state \<Rightarrow> output_world \<Rightarrow> cstring list \<Rightarrow> bool"
    and final :: "output_world \<Rightarrow> cstring list \<Rightarrow> bool"
  assumes live_emit: "live g w es \<Longrightarrow> output_emit_event env (Some e) g w = (rc, g', w') \<Longrightarrow> live g' w' (es @ [e])"
    and live_flush: "live g w es \<Longrightarrow> output_flush env g w = (rc, g', w') \<Longrightarrow> live g' w' es"
    and live_stderr: "live g w es \<Longrightarrow> live g (eprint msg w) es"
    and live_shutdown: "live g w es \<Longrightarrow> output_shutdown env g w = (g', w') \<Longrightarrow> final w' es"

text \<open>The sink of a state of the program, and that the delivery thread is not running when
  \<^verbatim>\<open>main\<close> uses the output.\<close>

definition sink_inv ::
  "(output_state \<Rightarrow> output_world \<Rightarrow> cstring list \<Rightarrow> bool) \<Rightarrow> (output_world \<Rightarrow> cstring list \<Rightarrow> bool) \<Rightarrow> sys \<Rightarrow> bool" where
  "sink_inv live final s \<longleftrightarrow>
     (case s_main s of
        Returned _ \<Rightarrow> final (s_world s) (s_emitted s)
      | _ \<Rightarrow> live (s_out s) (s_world s) (s_emitted s)) \<and>
     (s_main s \<in> {Join_Collector, Join_Delivery} \<or> s_delivery s = None \<or> delivery_done s) \<and>
     (s_main s \<in> {Create_Collector, Create_Delivery, Join_Abandoned} \<longrightarrow> s_delivery s = None)"

lemma sink_live:
  "sink_inv live final s \<Longrightarrow> (\<And>n. s_main s \<noteq> Returned n) \<Longrightarrow> live (s_out s) (s_world s) (s_emitted s)"
  by (cases "s_main s") (auto simp: sink_inv_def)

lemma sink_final: "sink_inv live final s \<Longrightarrow> s_main s = Returned n \<Longrightarrow> final (s_world s) (s_emitted s)"
  by (simp add: sink_inv_def)

lemma sink_always:
  assumes "sink_inv live final s" "\<And>g w es. live g w es \<Longrightarrow> final w es"
  shows "final (s_world s) (s_emitted s)"
  using assms by (cases "s_main s") (auto simp: sink_inv_def)

context event_sink
begin

lemma sink_delivery:
  assumes "live (s_out s) (s_world s) (s_emitted s)"
  shows "live (s_out (delivery_moves env d s)) (s_world (delivery_moves env d s)) (s_emitted (delivery_moves env d s))"
proof -
  have flush: ?thesis if "de_pc d = Flush \<or> de_pc d = Final_Flush"
  proof -
    obtain rc g' w' where f: "output_flush env (s_out s) (s_world s) = (rc, g', w')" by (metis prod.exhaust)
    from live_flush [OF assms f] that f show ?thesis by (auto simp: delivery_moves_def delivery_step.simps)
  qed
  show ?thesis
  proof (cases "de_pc d")
    case (Emit i)
    obtain rc g' w' where
      e: "output_emit_event env (Some (entry_msg (de_batch d ! i))) (s_out s) (s_world s) = (rc, g', w')"
      by (metis prod.exhaust)
    from live_emit [OF assms e] Emit e assms show ?thesis by (simp add: delivery_moves_def delivery_step.simps)
  qed (use flush assms in \<open>simp_all add: delivery_moves_def delivery_step.simps prod.case_eq_if\<close>)
qed

lemma sink_complain:
  "live (s_out s) (s_world s) es \<Longrightarrow> live (s_out (complain msg s)) (s_world (complain msg s)) es"
  using live_stderr by (simp add: complain_def)

lemma sink_shutdown:
  assumes "live (s_out s) (s_world s) (s_emitted s)" "s_delivery s = None \<or> delivery_done s"
  shows "sink_inv live final (shutdown_output env n s)"
proof -
  obtain g' w' where o: "output_shutdown env (s_out s) (s_world s) = (g', w')" by fastforce
  from live_shutdown [OF assms(1) o] o assms(2) show ?thesis
    by (simp add: sink_inv_def delivery_done_def shutdown_output_def)
qed

lemma sink_step:
  assumes "sink_inv live final s" "sys_step env cfg s a s'"
  shows "sink_inv live final s'"
  using assms(2)
proof (cases rule: sys_step.cases)
  case (collector c sm)
  then show ?thesis using assms(1) by (cases "s_main s") (simp_all add: sink_inv_def delivery_done_def)
next
  case (delivery d)
  then have m: "s_main s \<in> {Join_Collector, Join_Delivery}"
    using assms(1) by (auto simp: sink_inv_def delivery_done_def)
  then have "live (s_out s) (s_world s) (s_emitted s)" using sink_live [OF assms(1)] by auto
  from sink_delivery [OF this, of d] m delivery show ?thesis by (auto simp: sink_inv_def)
next
  case no_collector
  moreover from this have "live (s_out s) (s_world s) (s_emitted s)" "s_delivery s = None"
    using assms(1) by (simp_all add: sink_inv_def)
  ultimately show ?thesis using sink_shutdown sink_complain by simp
next
  case no_delivery
  moreover from this have "live (s_out s) (s_world s) (s_emitted s)" "s_delivery s = None"
    using assms(1) by (simp_all add: sink_inv_def)
  ultimately show ?thesis using sink_complain [of s] by (simp add: sink_inv_def)
next
  case join_abandoned
  moreover from this have "live (s_out s) (s_world s) (s_emitted s)" "s_delivery s = None"
    using assms(1) by (simp_all add: sink_inv_def)
  ultimately show ?thesis using sink_shutdown by simp
next
  case main_shutdown
  moreover from this have "live (s_out s) (s_world s) (s_emitted s)" "s_delivery s = None \<or> delivery_done s"
    using assms(1) by (simp_all add: sink_inv_def)
  ultimately show ?thesis using sink_shutdown [of s 0] by (simp add: sink_inv_def delivery_done_def)
next
  case signal
  then show ?thesis using assms(1) by (cases "s_main s") (simp_all add: sink_inv_def delivery_done_def)
qed (use assms(1) in \<open>simp_all add: sink_inv_def delivery_done_def\<close>)

lemma run_sink:
  assumes "sys_run env cfg allowed (sys_start qp g w) s" "live g w []"
  shows "sink_inv live final s"
proof -
  have "sink_inv live final (sys_start qp g w)" using assms(2) by (simp add: sink_inv_def)
  with assms(1) show ?thesis by (rule run_invariant) (rule sink_step)
qed

end

section \<open>The three backends\<close>

text \<open>What a list of events looks like on a stream.\<close>

definition event_lines :: "cstring list \<Rightarrow> char list" where
  "event_lines es = concat (map (\<lambda>e. e @ [LF]) es)"

lemma event_lines_append [simp]: "event_lines (es @ [e]) = event_lines es @ e @ [LF]"
  by (simp add: event_lines_def)

subsection \<open>Standard output\<close>

definition stdout_final :: "output_world \<Rightarrow> output_world \<Rightarrow> cstring list \<Rightarrow> bool" where
  "stdout_final w0 w es \<longleftrightarrow> w_stdout w = w_stdout w0 @ event_lines es"

definition stdout_live :: "output_world \<Rightarrow> output_state \<Rightarrow> output_world \<Rightarrow> cstring list \<Rightarrow> bool" where
  "stdout_live w0 g w es \<longleftrightarrow> g_mode g = OUTPUT_STDOUT \<and> stdout_final w0 w es"

interpretation stdout_sink: event_sink env "stdout_live w0" "stdout_final w0" for env w0
  by unfold_locales
    (auto simp: stdout_live_def stdout_final_def output_emit_event_def output_flush_def output_shutdown_def
      eprint_def Let_def)

subsection \<open>A file\<close>

definition file_final :: "output_world \<Rightarrow> output_world \<Rightarrow> cstring list \<Rightarrow> bool" where
  "file_final w0 w es \<longleftrightarrow> w_file w = w_file w0 @ event_lines es"

definition file_live :: "output_world \<Rightarrow> output_state \<Rightarrow> output_world \<Rightarrow> cstring list \<Rightarrow> bool" where
  "file_live w0 g w es \<longleftrightarrow> g_mode g = OUTPUT_FILE \<and> g_file_handle g \<noteq> None \<and> file_final w0 w es"

interpretation file_sink: event_sink env "file_live w0" "file_final w0" for env w0
  by unfold_locales
    (auto simp: file_live_def file_final_def output_emit_event_def output_flush_def output_shutdown_def
      eprint_def called_def Let_def split: if_split_asm)

subsection \<open>HTTP\<close>

text \<open>Of the events passed, those \<open>es\<close> that were not refused are in the log \<open>bs\<close> of posted
  batches or still in the batch. With a server that accepts everything none is refused, and after the
  shutdown none is left.\<close>

definition http_live ::
  "output_env \<Rightarrow> output_state \<Rightarrow> output_world \<Rightarrow> output_state \<Rightarrow> output_world \<Rightarrow> cstring list \<Rightarrow> bool" where
  "http_live env g0 w0 g w es \<longleftrightarrow>
     (\<exists>es' rc bs. http_step env es' g0 w0 rc g w bs \<and> subseq es' es \<and> (healthy env \<longrightarrow> es' = es))"

definition http_final ::
  "output_env \<Rightarrow> output_state \<Rightarrow> output_world \<Rightarrow> output_world \<Rightarrow> cstring list \<Rightarrow> bool" where
  "http_final env g0 w0 w es \<longleftrightarrow>
     (\<exists>g. http_live env g0 w0 g w es \<and> (healthy env \<longrightarrow> batch_list g = []))"

lemma http_live_start: "batch_ok g \<Longrightarrow> http_live env g w g w []"
  unfolding http_live_def by (auto intro!: exI [of _ "[]"] http_step_refl)

lemma http_live_ok: "http_live env g0 w0 g w es \<Longrightarrow> batch_ok g"
  by (auto simp: http_live_def http_step_def)

lemma http_live_more:
  assumes "http_live env g0 w0 g w es" "http_step env es1 g w rc g' w' bs" "subseq es1 es2" "healthy env \<Longrightarrow> es1 = es2"
  shows "http_live env g0 w0 g' w' (es @ es2)"
proof -
  obtain es' rc0 bs0 where h: "http_step env es' g0 w0 rc0 g w bs0" "subseq es' es" "healthy env \<longrightarrow> es' = es"
    using assms(1) unfolding http_live_def by blast
  have "subseq (es' @ es1) (es @ es2)" using h(2) assms(3) by (rule list_emb_append_mono)
  then show ?thesis
    using http_step_trans [OF h(1) assms(2)] h(3) assms(4) unfolding http_live_def
    by (intro exI [of _ "es' @ es1"] exI [of _ rc] exI [of _ "bs0 @ bs"]) auto
qed

lemma http_live_post:
  assumes "http_live env g0 w0 g w es" "http_post_batch env g w = (rc, g', w')"
  shows "http_live env g0 w0 g' w' es" "healthy env \<Longrightarrow> batch_list g' = []"
proof -
  obtain bs where h: "http_step env [] g w rc g' w' bs" "rc = 0 \<longrightarrow> batch_list g' = []"
    using http_post_batch_step [OF assms(2) http_live_ok [OF assms(1)]] by blast
  from http_live_more [OF assms(1) h(1), of "[]"] show "http_live env g0 w0 g' w' es" by simp
  show "healthy env \<Longrightarrow> batch_list g' = []" using h by (simp add: http_step_def)
qed

interpretation http_sink: event_sink env "http_live env g0 w0" "http_final env g0 w0" for env g0 w0
proof (unfold_locales, goal_cases)
  case (1 g w es e rc g' w')
  have ok: "batch_ok g" by (rule http_live_ok [OF 1(1)])
  then have "emit_http env e g w = (rc, g', w')" using 1(2) by (simp add: emit_event_http)
  from emit_http_step [OF this ok] obtain es1 bs where
    h: "http_step env es1 g w rc g' w' bs" "es1 = [e] \<or> es1 = [] \<and> rc = - 1" by blast
  from h(2) show ?case
    by (intro http_live_more [OF 1(1) h(1)]) (use h in \<open>auto simp: http_step_def\<close>)
next
  case (2 g w es rc g' w')
  then have "http_post_batch env g w = (rc, g', w')"
    using http_live_ok [OF 2(1)] by (simp add: output_flush_def batch_ok_def)
  then show ?case by (rule http_live_post(1) [OF 2(1)])
next
  case (3 g w es msg)
  then show ?case by (auto simp: http_live_def http_step_def eprint_def)
next
  case (4 g w es g' w')
  obtain rc g2 w2 where p: "http_post_batch env g w = (rc, g2, w2)" by (metis prod.exhaust)
  then have "w' = w2"
    using 4(2) http_live_ok [OF 4(1)] by (simp add: output_shutdown_def output_flush_def batch_ok_def Let_def)
  with http_live_post [OF 4(1) p] show ?case by (auto simp: http_final_def)
qed

end
