(* ===== verification/Program.thy ===== *)
theory Program
  imports Sinks
begin

text \<open>
  What the interleaved threads of \<open>Runtime\<close> guarantee from the start of the threads in
  \<^verbatim>\<open>main\<close> on: order and conservation of the events, delivery when no signal arrives, the
  loss a signal can cause, termination, well-formed output and the self-metrics.
\<close>

section \<open>Properties of the program\<close>

text \<open>C3: In every state the program reaches, however the threads interleave and whenever signals
  arrive: what was passed to output_emit_event, followed by the rest of the delivery thread's batch
  and by the queue, is a subsequence of what the collector enqueued, so no event is invented,
  duplicated or reordered.\<close>

theorem runtime_in_order:
  assumes "created qp" "sys_run env cfg allowed (sys_start qp g w) s"
  shows "subseq (s_emitted s @ pending s @ backlog s) (s_sent s)"
  using run_sys_inv [OF assms(2) start_inv(1) [OF assms(1)]] by (simp add: sys_inv_def)

lemma quiet_end:
  assumes "quiet_inv s" "s_main s = Shutdown"
  shows "pending s = []" "backlog s = []" "subseq (s_emitted s) (s_sent s)"
proof -
  obtain d where "s_delivery s = Some d" "de_pc d = Delivery_Exit"
    using assms by (auto simp: quiet_inv_def delivery_done_def split: option.splits)
  with assms show e: "pending s = []" "backlog s = []"
    by (auto simp: quiet_inv_def pending_def batch_rest_def)
  show "subseq (s_emitted s) (s_sent s)" using assms(1) e by (simp add: quiet_inv_def sys_inv_def)
qed

lemma quiet_end_all:
  assumes "quiet_inv s" "s_main s = Shutdown" "s_queue s = Some q" "dropped_count q = 0"
    "length (s_sent s) < 2 ^ 64"
  shows "s_emitted s = s_sent s"
proof -
  note e = quiet_end [OF assms(1,2)]
  have "queue_books s q" using assms(1,3) by (simp add: quiet_inv_def sys_inv_def)
  then have "(of_nat (length (s_emitted s)) :: u64) = of_nat (length (s_sent s))"
    using assms(3,4) e(1,2) by (simp add: queue_books_def backlog_def del: length_queue_msgs)
  then have "length (s_emitted s) = length (s_sent s)"
    using same_length_u64 assms(5) list_emb_length [OF e(3)] by simp
  with e(3) show ?thesis by (rule subseq_same_length)
qed

text \<open>C4: Without a signal, when main reaches its shutdown every event the collector enqueued has been
  passed to output_emit_event, exactly once and in order, unless the queue overflowed: if its drop
  counter is zero the two sequences are equal.\<close>

theorem quiet_run_delivers:
  assumes "created qp" "sys_run env cfg no_signal (sys_start qp g w) s" "s_main s = Shutdown"
    "s_queue s = Some q" "dropped_count q = 0" "length (s_sent s) < 2 ^ 64"
  shows "s_emitted s = s_sent s"
  by (rule quiet_end_all [OF run_quiet_inv [OF assms(2) start_inv(3) [OF assms(1)]] assms(3-6)])

lemma few_sends:
  assumes "pass_inv cfg c" "co_pc c = Collector_Exit" "0 < iterations cfg" "n \<le> sends_bound cfg c"
  shows "int n \<le> 2 + 5 * iterations cfg"
proof -
  have "(enabled cfg + 1) * nat (rows c) \<le> 5 * nat (iterations cfg)"
    using assms(1-3) enabled_le [of cfg] by (intro mult_mono nat_mono) (simp_all add: pass_inv_def)
  then have "n \<le> 2 + 5 * nat (iterations cfg)" using assms(2,4)
    by (cases "first_iteration c") (simp_all add: sends_bound_def)
  then show ?thesis using assms(3) by linarith
qed

lemma short_run_facts:
  assumes "created qp" "sys_run env cfg no_signal (sys_start qp g w) s" "s_main s = Shutdown"
    "s_queue s = Some q" "0 < iterations cfg" "2 + 5 * iterations cfg \<le> int MAX_QUEUE_DEPTH"
  shows "quiet_inv s" "dropped_count q = 0" "length (s_sent s) \<le> MAX_QUEUE_DEPTH"
proof -
  have inv: "quiet_inv s" "count_inv cfg s"
    using run_quiet_inv [OF assms(2)] run_count_inv [OF assms(2)] start_inv [OF assms(1)] by auto
  obtain c where c: "s_collector s = Some c" "co_pc c = Collector_Exit"
    using inv(1) assms(3) by (auto simp: quiet_inv_def collector_done_def split: option.splits)
  then have "int (length (s_sent s)) \<le> 2 + 5 * iterations cfg"
    using inv(2) assms(5) by (intro few_sends [of cfg c]) (auto simp: count_inv_def)
  then show few: "length (s_sent s) \<le> MAX_QUEUE_DEPTH" using assms(6) by linarith
  have "queue_books s q" using inv(1) assms(4) by (simp add: quiet_inv_def sys_inv_def)
  then show "quiet_inv s" "dropped_count q = 0" using inv(1) few by (simp_all add: queue_books_def)
qed

lemma short_run_all:
  assumes "created qp" "sys_run env cfg no_signal (sys_start qp g w) s" "s_main s = Shutdown"
    "s_queue s = Some q" "0 < iterations cfg" "2 + 5 * iterations cfg \<le> int MAX_QUEUE_DEPTH"
  shows "s_emitted s = s_sent s"
proof -
  note f = short_run_facts [OF assms]
  have "length (s_sent s) < 2 ^ 64" using f(3) by (simp add: MAX_QUEUE_DEPTH_def)
  with f(1) assms(3,4) f(2) show ?thesis by (rule quiet_end_all)
qed

text \<open>A run of a few passes loses nothing whatever the interleaving: with no signal and an
  iteration count n with 2 + 5 n at most MAX_QUEUE_DEPTH, every enqueued event has been emitted,
  in order, when main reaches its shutdown.\<close>

theorem short_run_delivers:
  assumes "created qp" "sys_run env cfg no_signal (sys_start qp g w) s" "s_main s = Shutdown"
    "s_queue s = Some q" "0 < iterations cfg" "2 + 5 * iterations cfg \<le> int MAX_QUEUE_DEPTH"
  shows "s_emitted s = s_sent s"
  by (rule short_run_all [OF assms])

text \<open>C5: Once g_stop is set, the delivery thread on its own terminates, and before it does it passes
  every event still in its batch and in the queue to output_emit_event, in order, provided that it has
  not yet left its loop.\<close>

theorem stop_drains:
  assumes "created qp" "sys_run env cfg allowed (sys_start qp g w) s" "s_stop s"
    "s_delivery s = Some d" "de_pc d \<notin> {Final_Flush, Delivery_Exit}"
  shows "\<exists>s'. sys_run env cfg (\<lambda>a. a = Delivery_Step) s s' \<and> delivery_done s' \<and> backlog s' = [] \<and>
    s_emitted s' = s_emitted s @ pending s @ backlog s"
proof -
  have "draining s"
    using run_sys_inv [OF assms(2) start_inv(1) [OF assms(1)]] assms(3-5) by (simp add: draining_def)
  from drain [OF this] show ?thesis by blast
qed

section \<open>Well-formed output\<close>

definition good_answers :: "syswatch_config \<Rightarrow> action \<Rightarrow> bool" where
  "good_answers cfg a = (case a of Collector_Step sm \<Rightarrow> sample_ok cfg sm | _ \<Rightarrow> True)"

definition texts_inv :: "sys \<Rightarrow> bool" where
  "texts_inv s \<longleftrightarrow> sys_inv s \<and> list_all json_value (s_sent s) \<and>
     (\<forall>c. s_collector s = Some c \<longrightarrow> json_inv c)"

lemma texts_step:
  assumes "texts_inv s" "sys_step env cfg s a s'" "good_answers cfg a"
  shows "texts_inv s'"
proof -
  have inv': "sys_inv s'" using assms(1,2) by (auto simp: texts_inv_def intro: sys_step_inv)
  from assms(2) show ?thesis
  proof (cases rule: sys_step.cases)
    case (collector c sm)
    obtain mo c' where st: "collector_step cfg sm (s_stop s) (s_queue s) c = (mo, c')" by fastforce
    have inv: "shape_inv c" "json_inv c" "sample_ok cfg sm"
      using assms collector by (simp_all add: texts_inv_def sys_inv_def good_answers_def)
    note j = collector_step_json [OF inv(2,3) st]
    have "json_value (cstr m)" if "mo = Some m" for m
      using j that json_no_nul(1) by (simp add: cstr_id)
    then show ?thesis
      using collector inv' assms(1) j
      by (auto simp: texts_inv_def collector_moves_eq [OF st inv(1)] split: option.splits)
  qed (use inv' assms(1) in \<open>auto simp: texts_inv_def\<close>)
qed

lemma run_texts:
  assumes "created qp" "sys_run env cfg (good_answers cfg) (sys_start qp g w) s"
  shows "texts_inv s"
proof -
  have "texts_inv (sys_start qp g w)" using start_inv(1) [OF assms(1)] by (simp add: texts_inv_def)
  with assms(2) show ?thesis by (rule run_invariant) (rule texts_step)
qed

text \<open>C7: Every string the program passes to output_emit_event, and every string still on its way, is
  one complete well-formed JSON value, however the threads interleave and whenever signals arrive,
  provided that in every step of the collector (sample_ok) the timestamp text it gets is the body of
  a JSON string, which the terminator that format_rfc3339 overwrites in tz_buf can spoil, and the
  names of the disks and interfaces it reads need no escaping.\<close>

theorem program_emits_json:
  assumes "created qp" "sys_run env cfg (good_answers cfg) (sys_start qp g w) s"
  shows "list_all json_value (s_emitted s @ pending s @ backlog s)"
proof -
  have "texts_inv s" by (rule run_texts [OF assms])
  then have "subseq (s_emitted s @ pending s @ backlog s) (s_sent s)" "list_all json_value (s_sent s)"
    by (simp_all add: texts_inv_def sys_inv_def)
  then show ?thesis unfolding list_all_iff using list_emb_set by fastforce
qed

section \<open>The self-metrics\<close>


section \<open>What reaches the outside\<close>

lemma stdout_always:
  assumes "sys_run env cfg allowed (sys_start qp g w) s" "g_mode g = OUTPUT_STDOUT"
  shows "stdout_final w (s_world s) (s_emitted s)"
  using assms(2)
  by (intro sink_always [OF stdout_sink.run_sink [OF assms(1)]])
    (simp_all add: stdout_live_def stdout_final_def event_lines_def)

lemma file_always:
  assumes "sys_run env cfg allowed (sys_start qp g w) s" "g_mode g = OUTPUT_FILE" "g_file_handle g \<noteq> None"
  shows "file_final w (s_world s) (s_emitted s)"
  using assms(2,3)
  by (intro sink_always [OF file_sink.run_sink [OF assms(1)]])
    (simp_all add: file_live_def file_final_def event_lines_def)

lemma run_posts:
  assumes "sys_run env cfg allowed (sys_start qp g w) s" "batch_ok g"
  shows "\<exists>g1. http_live env g w g1 (s_world s) (s_emitted s)"
  using http_sink.run_sink [OF assms(1) http_live_start [OF assms(2)]]
  by (cases "s_main s") (auto simp: sink_inv_def http_final_def)

text \<open>C9: With the standard output or a file as backend, what the program has written there at any time
  up to and after its end is one line per emitted event, in the order in which the collector enqueued
  them, for any interleaving, signals and failures to create a thread.\<close>

theorem program_prints_lines:
  assumes "created qp" "sys_run env cfg allowed (sys_start qp g w) s"
  shows "(g_mode g = OUTPUT_STDOUT \<longrightarrow> w_stdout (s_world s) = w_stdout w @ event_lines (s_emitted s)) \<and>
    (g_mode g = OUTPUT_FILE \<and> g_file_handle g \<noteq> None \<longrightarrow>
       w_file (s_world s) = w_file w @ event_lines (s_emitted s)) \<and>
    subseq (s_emitted s) (s_sent s)"
proof -
  have "stdout_final w (s_world s) (s_emitted s)" if "g_mode g = OUTPUT_STDOUT"
    by (rule stdout_always [OF assms(2) that])
  moreover have "file_final w (s_world s) (s_emitted s)" if "g_mode g = OUTPUT_FILE" "g_file_handle g \<noteq> None"
    by (rule file_always [OF assms(2) that])
  moreover have "subseq (s_emitted s @ pending s @ backlog s) (s_sent s)"
    using run_sys_inv [OF assms(2) start_inv(1) [OF assms(1)]] by (simp add: sys_inv_def)
  ultimately show ?thesis using subseq_prefix by (auto simp: stdout_final_def file_final_def)
qed

text \<open>C6: With the HTTP backend, from an empty batch: at any time, for any interleaving, signals, failing
  allocations, transfers and server answers, the requests made are those of a sequence of batches, each
  non-empty, of at most batch_size events and posted one to retry_max_attempts + 1 times, and together
  the batches are a subsequence of the enqueued events: nothing is invented, reordered or put into two
  batches.\<close>

theorem program_posts:
  assumes "created qp" "batch_ok g" "batch_list g = []" "sys_run env cfg allowed (sys_start qp g w) s"
  shows "\<exists>bs. w_posts (s_world s) = w_posts w @ log_requests g bs \<and> log_ok g bs \<and>
    subseq (log_events bs) (s_sent s)"
proof -
  obtain g1 es rc bs where h: "http_step env es g w rc g1 (s_world s) bs" "subseq es (s_emitted s)"
    using run_posts [OF assms(4,2)] unfolding http_live_def by blast
  have "subseq (s_emitted s @ pending s @ backlog s) (s_sent s)"
    using run_sys_inv [OF assms(4) start_inv(1) [OF assms(1)]] by (simp add: sys_inv_def)
  then have "subseq es (s_sent s)"
    using h(2) subseq_prefix subseq_order.order_trans by blast
  moreover have "log_events bs @ batch_list g1 = es" using h(1) assms(3) by (simp add: http_step_def)
  ultimately have "subseq (log_events bs) (s_sent s)" using subseq_prefix by blast
  then show ?thesis using h(1) by (auto simp: http_step_def)
qed

text \<open>After \<^verbatim>\<open>main\<close> has returned, with a server that accepts everything.\<close>

lemma http_delivers:
  assumes "healthy env" "batch_ok g" "batch_list g = []" "sys_run env cfg allowed (sys_start qp g w) s'"
    "s_main s' = Returned n"
  shows "\<exists>bs. concat bs = s_emitted s' \<and> (\<forall>b \<in> set bs. b \<noteq> [] \<and> int (length b) \<le> g_batch_size g) \<and>
    w_posts (s_world s') = w_posts w @ map (\<lambda>b. http_request g (http_body b)) bs"
proof -
  have "http_final env g w (s_world s') (s_emitted s')"
    by (rule sink_final [OF http_sink.run_sink [OF assms(4) http_live_start [OF assms(2)]] assms(5)])
  then obtain rc g1 bs where h: "http_step env (s_emitted s') g w rc g1 (s_world s') bs" "batch_list g1 = []"
    using assms(1) unfolding http_final_def http_live_def by auto
  then have "concat (map fst bs) = s_emitted s'" "log_ok g bs" "list_all (\<lambda>(b, n). n = 1) bs"
    "w_posts (s_world s') = w_posts w @ log_requests g bs"
    using assms(1,3) by (simp_all add: http_step_def log_events_def)
  then show ?thesis
    using log_requests_once [of bs g] by (intro exI [of _ "map fst bs"]) (auto simp: log_ok_def list_all_iff)
qed

section \<open>Termination of the collector\<close>

text \<open>The collector thread under any environment: one sample, value of \<^verbatim>\<open>g_stop\<close> and queue per
  step.\<close>

fun collector_run ::
  "syswatch_config \<Rightarrow> (sample \<times> bool \<times> event_queue option) list \<Rightarrow> collector \<Rightarrow> collector" where
  "collector_run cfg [] c = c"
| "collector_run cfg ((sm, stop, q) # ins) c = collector_run cfg ins (snd (collector_step cfg sm stop q c))"

lemma collector_run_exit: "co_pc c = Collector_Exit \<Longrightarrow> collector_run cfg ins c = c"
  by (induction ins) (auto simp: collector_step.simps Let_def)

lemma collector_run_ends:
  assumes "0 < iterations cfg"
  shows "pass_inv cfg c \<Longrightarrow> collector_left cfg c \<le> length ins \<Longrightarrow>
    co_pc (collector_run cfg ins c) = Collector_Exit \<and> pass_inv cfg (collector_run cfg ins c)"
proof (induction ins arbitrary: c)
  case Nil
  then show ?case by (cases "co_pc c") (simp_all add: collector_left_def)
next
  case (Cons x ins)
  obtain sm stop q where x: "x = (sm, stop, q)" by (cases x) auto
  obtain mo c' where st: "collector_step cfg sm stop q c = (mo, c')" by fastforce
  show ?case
  proof (cases "co_pc c = Collector_Exit")
    case True
    then show ?thesis using Cons.prems(1) collector_run_exit by metis
  next
    case False
    with Cons.IH [OF pass_inv_step [OF Cons.prems(1) st]] collector_left_step [OF Cons.prems(1) st _ assms]
      Cons.prems(2) x st show ?thesis by simp
  qed
qed

lemma collector_exit_reason:
  assumes "pass_inv cfg c" "0 < iterations cfg" "co_pc c = Collector_Exit \<longrightarrow> rows c = iterations cfg"
    "collector_step cfg sm False q c = (mo, c')"
  shows "co_pc c' = Collector_Exit \<longrightarrow> rows c' = iterations cfg"
proof (cases "co_pc c")
  case (Emitting ms)
  then show ?thesis using assms by (cases ms) (auto simp: collector_step.simps Let_def)
next
  case Sampling
  then show ?thesis using assms collector_sample_events [of cfg sm c] by (auto simp: collector_step.simps)
qed (use assms in \<open>auto simp: collector_step.simps Let_def pass_inv_def split: if_splits\<close>)

lemma collector_run_rows:
  "0 < iterations cfg \<Longrightarrow> pass_inv cfg c \<Longrightarrow> co_pc c = Collector_Exit \<longrightarrow> rows c = iterations cfg \<Longrightarrow>
     \<forall>(sm, stop, q) \<in> set ins. \<not> stop \<Longrightarrow>
     co_pc (collector_run cfg ins c) = Collector_Exit \<longrightarrow> rows (collector_run cfg ins c) = iterations cfg"
proof (induction ins arbitrary: c)
  case (Cons x ins)
  obtain sm stop q where x: "x = (sm, stop, q)" by (cases x) auto
  obtain mo c' where st: "collector_step cfg sm stop q c = (mo, c')" by fastforce
  have "\<not> stop" using Cons.prems(4) x by simp
  then show ?case
    using Cons.IH [of c'] Cons.prems x st pass_inv_step [OF Cons.prems(2) st]
      collector_exit_reason [OF Cons.prems(2,1,3), of sm q mo c'] by simp
qed simp

text \<open>C8: With a positive iteration count n the collector thread ends after at most 20 n + 18 steps,
  whatever it reads, whenever g_stop is set and whatever the state of the queue; it has made at most n
  passes, and exactly n when g_stop was never set.\<close>

theorem collector_terminates:
  assumes "0 < iterations cfg" "20 * iterations cfg + 18 \<le> int (length ins)"
  shows "co_pc (collector_run cfg ins collector_start) = Collector_Exit \<and>
    rows (collector_run cfg ins collector_start) \<le> iterations cfg \<and>
    ((\<forall>(sm, stop, q) \<in> set ins. \<not> stop) \<longrightarrow>
      rows (collector_run cfg ins collector_start) = iterations cfg)"
proof -
  have "collector_left cfg collector_start \<le> length ins"
    using assms by (simp add: collector_left_def collector_start_def)
  from collector_run_ends [OF assms(1) pass_inv_start this]
  have e: "co_pc (collector_run cfg ins collector_start) = Collector_Exit"
    "pass_inv cfg (collector_run cfg ins collector_start)" by simp_all
  then have "rows (collector_run cfg ins collector_start) \<le> iterations cfg"
    using assms(1) by (simp add: pass_inv_def)
  moreover have "co_pc collector_start \<noteq> Collector_Exit" by (simp add: collector_start_def)
  ultimately show ?thesis
    using e collector_run_rows [OF assms(1) pass_inv_start, of ins] by blast
qed

section \<open>The race at a signal\<close>

text \<open>The delivery thread on an empty queue, from its first test of \<^verbatim>\<open>g_stop\<close> to its end.\<close>

lemma delivery_gives_up:
  assumes "s_delivery s = Some d" "de_pc d = Check_Stop" "s_stop s" "s_queue s = Some q" "q_count q = 0"
  shows "\<exists>s'. sys_run env cfg (\<lambda>a. a = Delivery_Step) s s' \<and> delivery_done s' \<and> s_queue s' = Some q \<and>
    s_collector s' = s_collector s \<and> s_main s' = s_main s \<and> s_stop s' \<and> s_sent s' = s_sent s \<and>
    s_emitted s' = s_emitted s"
proof -
  let ?d1 = "d\<lparr>de_pc := Check_Queue\<rparr>" and ?d2 = "d\<lparr>de_pc := Final_Flush\<rparr>" and ?d3 = "d\<lparr>de_pc := Delivery_Exit\<rparr>"
  let ?s1 = "delivery_moves env d s"
  let ?s2 = "delivery_moves env ?d1 ?s1"
  let ?s3 = "delivery_moves env ?d2 ?s2"
  have 1: "s_delivery ?s1 = Some ?d1" "s_queue ?s1 = Some q" "s_emitted ?s1 = s_emitted s"
    using assms by (simp_all add: delivery_moves_def delivery_step.simps)
  then have 2: "s_delivery ?s2 = Some ?d2" "s_queue ?s2 = Some q" "s_emitted ?s2 = s_emitted s"
    using assms(5) by (simp_all add: delivery_moves_def [of env ?d1] delivery_step.simps queue_size_def)
  then have 3: "s_delivery ?s3 = Some ?d3" "s_queue ?s3 = Some q" "s_emitted ?s3 = s_emitted s"
    by (simp_all add: delivery_moves_def [of env ?d2] delivery_step.simps prod.case_eq_if)
  have "sys_run env cfg (\<lambda>a. a = Delivery_Step) s ?s3"
    using assms(2)
    by (intro run_trans [OF run_one [OF sys_step.delivery [OF assms(1)]]
          run_trans [OF run_one [OF sys_step.delivery [OF 1(1)]] run_one [OF sys_step.delivery [OF 2(1)]]]])
      simp_all
  then show ?thesis using assms(3) 3 by (intro exI [of _ ?s3]) (simp add: delivery_done_def)
qed

text \<open>The collector after \<^verbatim>\<open>g_stop\<close> is set: it still enqueues its first event, then ends.\<close>

lemma collector_stops:
  assumes "s_collector s = Some collector_start" "s_stop s" "s_queue s = Some q" "queue_inv q" "queue_msgs q = []"
  shows "\<exists>s' m. sys_run env cfg (\<lambda>a. a = Collector_Step sm) s s' \<and> collector_done s' \<and>
    backlog s' = [m] \<and> s_sent s' = s_sent s @ [m] \<and> s_delivery s' = s_delivery s \<and>
    s_emitted s' = s_emitted s \<and> s_main s' = s_main s"
proof -
  let ?m = "warming_up_event (wall_stamp (sm_moment sm)) (host_text cfg (mo_hostname (sm_moment sm)))"
  let ?c1 = "collector_start\<lparr>co_pc := Baseline\<rparr>"
  let ?c2 = "(collector_baseline cfg sm ?c1)\<lparr>co_pc := Loop_Test\<rparr>"
  let ?c3 = "?c2\<lparr>co_pc := Collector_Exit\<rparr>"
  let ?s1 = "collector_moves cfg sm collector_start s"
  let ?s2 = "collector_moves cfg sm ?c1 ?s1"
  let ?s3 = "collector_moves cfg sm ?c2 ?s2"
  have step: "collector_step cfg sm True qp collector_start = (Some ?m, ?c1)"
    "collector_step cfg sm True qp ?c1 = (None, ?c2)" "collector_step cfg sm True qp ?c2 = (None, ?c3)" for qp
    by (simp_all add: collector_step.simps collector_start_def Let_def)
  have "msg_ok (cstr ?m)" by (intro shape_msg_ok) simp
  then have put: "queue_msgs (put_msg (sm_realtime sm) (cstr ?m) q) = [cstr ?m]"
    using evq.contents_put [OF assms(4), of "cstr ?m"] assms(5) by (simp add: push_bounded_def)
  have 1: "s_collector ?s1 = Some ?c1" "backlog ?s1 = [cstr ?m]" "s_sent ?s1 = s_sent s @ [cstr ?m]"
    using assms(2,3) step(1) put
    by (simp_all add: collector_moves_def enqueue_text_put backlog_def)
  have 2: "s_collector ?s2 = Some ?c2" "backlog ?s2 = backlog ?s1" "s_sent ?s2 = s_sent ?s1"
    using assms(2) step(2) by (simp_all add: collector_moves_def [of cfg sm ?c1] backlog_def)
  have 3: "s_collector ?s3 = Some ?c3" "backlog ?s3 = backlog ?s2" "s_sent ?s3 = s_sent ?s2"
    using assms(2) step(3) by (simp_all add: collector_moves_def [of cfg sm ?c2] backlog_def)
  have "sys_run env cfg (\<lambda>a. a = Collector_Step sm) s ?s3"
    by (intro run_trans [OF run_one [OF sys_step.collector [OF assms(1)]]
          run_trans [OF run_one [OF sys_step.collector [OF 1(1)]] run_one [OF sys_step.collector [OF 2(1)]]]])
      (simp_all add: collector_start_def)
  then show ?thesis
    using 1 2 3 by (intro exI [of _ ?s3] exI [of _ "cstr ?m"]) (simp add: collector_done_def)
qed

text \<open>C11: A signal can lose events although the queue never overflows: for every configuration there
  is a run in which the delivery thread sees g_stop set and the queue empty and ends, the collector
  enqueues its first event afterwards, and main shuts down with that event still in the queue.\<close>

theorem shutdown_race:
  assumes "created (Some q)"
  shows "\<exists>s m. sys_run env cfg (\<lambda>_. True) (sys_start (Some q) g w) s \<and> s_main s = Shutdown \<and>
    s_sent s = [m] \<and> backlog s = [m] \<and> s_emitted s = []"
proof -
  let ?b = "replicate 1000 undefined :: event_queue_entry list"
  let ?s0 = "sys_start (Some q) g w"
  let ?s1 = "?s0\<lparr>s_collector := Some collector_start, s_main := Create_Delivery\<rparr>"
  let ?s2 = "?s1\<lparr>s_delivery := Some (delivery_start ?b (s_queue ?s1)), s_main := Join_Collector\<rparr>"
  let ?s3 = "?s2\<lparr>s_stop := True\<rparr>"
  let ?any = "\<lambda>_ :: action. True"
  fix sm :: sample
  have q: "queue_inv q" "queue_msgs q = []" "q_count q = 0" using created_queue [OF assms] by simp_all
  have 123: "sys_run env cfg ?any ?s0 ?s3"
    by (intro run_trans [OF run_one [OF sys_step.create_collector]
          run_trans [OF run_one [OF sys_step.create_delivery] run_one [OF sys_step.signal]]]) simp_all
  obtain s4 where 4: "sys_run env cfg (\<lambda>a. a = Delivery_Step) ?s3 s4" "delivery_done s4" "s_queue s4 = Some q"
    "s_collector s4 = Some collector_start" "s_main s4 = Join_Collector" "s_stop s4" "s_sent s4 = []" "s_emitted s4 = []"
    using delivery_gives_up [of ?s3 "delivery_start ?b (Some q)" q env cfg] q(3) by (auto simp: delivery_start_def)
  obtain s5 m where 5: "sys_run env cfg (\<lambda>a. a = Collector_Step sm) s4 s5" "collector_done s5" "backlog s5 = [m]"
    "s_sent s5 = [m]" "s_delivery s5 = s_delivery s4" "s_emitted s5 = []" "s_main s5 = Join_Collector"
    using collector_stops [OF 4(4,6,3) q(1,2), of env cfg sm] 4(5,7,8) by auto
  let ?s6 = "s5\<lparr>s_stop := True, s_main := Join_Delivery\<rparr>"
  let ?s7 = "?s6\<lparr>s_main := Shutdown\<rparr>"
  have "delivery_done ?s6" using 4(2) 5(5) by (simp add: delivery_done_def)
  then have 67: "sys_run env cfg ?any s5 ?s7"
    using 5(2,7)
    by (intro run_trans [OF run_one [OF sys_step.join_collector] run_one [OF sys_step.join_delivery]]) simp_all
  have "sys_run env cfg ?any ?s0 ?s7"
    using run_trans [OF 123 run_trans [OF run_mono [OF 4(1)] run_trans [OF run_mono [OF 5(1)] 67]]] by simp
  then show ?thesis using 5 by (intro exI [of _ ?s7] exI [of _ m]) (simp add: backlog_def)
qed

section \<open>Examples\<close>

definition demo_run_cfg :: syswatch_config where
  "demo_run_cfg = init_default_config\<lparr>iterations := 1\<rparr>"

definition demo_moment :: moment where
  "demo_moment =
     \<lparr>mo_clock = Some \<lparr>tv_sec = 0, tv_nsec = 234000000\<rparr>, mo_stale = \<lparr>tv_sec = 0, tv_nsec = 0\<rparr>,
      mo_localtime = (\<lambda>_. Some demo_tm), mo_tz_junk = replicate 16 NUL, mo_overrun = [],
      mo_hostname = Some ''box''\<rparr>"

definition demo_sample :: sample where
  "demo_sample =
     \<lparr>sm_moment = demo_moment, sm_realtime = None, sm_unslept = 0, sm_stat = Some ''cpu  1 2 3 4'',
      sm_meminfo = None, sm_diskstats = None, sm_netdev = None, sm_junk = (\<lambda>_ _. 0)\<rparr>"

abbreviation demo_start :: sys where
  "demo_start \<equiv> sys_start (Some zeroed_queue) zero_output demo_world"

lemma demo_sample_ok: "sample_ok cfg demo_sample"
proof -
  have "moment_ok demo_moment"
    by (rule moment_okI(2) [where t = demo_tm and ts = "\<lparr>tv_sec = 0, tv_nsec = 234000000\<rparr>" and junk = "replicate 9 NUL"])
      (simp_all add: demo_moment_def demo_tm_valid eval_nat_numeral)
  then show ?thesis
    by (simp add: sample_ok_def demo_sample_def disk_read_snapshot_def net_read_snapshot_def)
qed

lemma demo_good_answers: "calm demo_sample a \<Longrightarrow> good_answers cfg a"
  using demo_sample_ok by (auto simp: calm_def good_answers_def split: action.splits)

text \<open>A complete run of one pass.\<close>

definition demo_run :: "sys \<Rightarrow> event_queue \<Rightarrow> bool" where
  "demo_run s q \<longleftrightarrow> sys_run demo_env demo_run_cfg (calm demo_sample) demo_start s \<and> s_main s = Shutdown \<and>
     s_queue s = Some q \<and> s_sent s \<noteq> []"

lemma demo_run_exists: "\<exists>s q. demo_run s q"
  using complete_run [OF created_zeroed, of demo_run_cfg demo_env demo_sample zero_output demo_world]
  by (auto simp: demo_run_def demo_run_cfg_def)

lemma demo_run_quiet: "demo_run s q \<Longrightarrow> sys_run demo_env demo_run_cfg no_signal demo_start s"
  unfolding demo_run_def by (elim conjE run_mono) (rule calm_no_signal)

lemma demo_run_simps: "0 < iterations demo_run_cfg" "2 + 5 * iterations demo_run_cfg \<le> int MAX_QUEUE_DEPTH"
  by (simp_all add: demo_run_cfg_def MAX_QUEUE_DEPTH_def)

theorem runtime_in_order_witness:
  "\<exists>s q. demo_run s q \<and> subseq (s_emitted s @ pending s @ backlog s) (s_sent s)"
  using demo_run_exists runtime_in_order [OF created_zeroed demo_run_quiet] by blast

theorem quiet_run_delivers_witness: "\<exists>s q. demo_run s q \<and> s_emitted s = s_sent s"
proof -
  obtain s q where r: "demo_run s q" using demo_run_exists by blast
  then have r': "s_main s = Shutdown" "s_queue s = Some q" by (simp_all add: demo_run_def)
  note f = short_run_facts [OF created_zeroed demo_run_quiet [OF r] r' demo_run_simps]
  have "length (s_sent s) < 2 ^ 64" using f(3) by (simp add: MAX_QUEUE_DEPTH_def)
  from quiet_run_delivers [OF created_zeroed demo_run_quiet [OF r] r' f(2) this] r show ?thesis by blast
qed

theorem short_run_delivers_witness: "\<exists>s q. demo_run s q \<and> s_emitted s = s_sent s"
proof -
  obtain s q where r: "demo_run s q" using demo_run_exists by blast
  then have "s_main s = Shutdown" "s_queue s = Some q" by (simp_all add: demo_run_def)
  from short_run_delivers [OF created_zeroed demo_run_quiet [OF r] this demo_run_simps] r show ?thesis by blast
qed

theorem program_emits_json_witness:
  "\<exists>s q. demo_run s q \<and> list_all json_value (s_emitted s @ pending s @ backlog s)"
proof -
  obtain s q where r: "demo_run s q" using demo_run_exists by blast
  have "sys_run demo_env demo_run_cfg (good_answers demo_run_cfg) demo_start s"
    by (rule run_mono [of _ _ "calm demo_sample"])
      (use r in \<open>auto simp: demo_run_def intro: demo_good_answers\<close>)
  from program_emits_json [OF created_zeroed this] r show ?thesis by blast
qed

theorem program_prints_lines_witness:
  "\<exists>s q. demo_run s q \<and> w_stdout (s_world s) = w_stdout demo_world @ event_lines (s_emitted s) \<and>
    subseq (s_emitted s) (s_sent s)"
proof -
  obtain s q where r: "demo_run s q" using demo_run_exists by blast
  from program_prints_lines [OF created_zeroed demo_run_quiet [OF r]] r show ?thesis by (auto simp: zero_output_def)
qed

theorem program_posts_witness:
  "\<exists>s bs. sys_run demo_flaky demo_run_cfg (calm demo_sample) (sys_start (Some zeroed_queue) (fst demo_state) demo_world) s \<and>
     s_main s = Shutdown \<and> w_posts (s_world s) = log_requests (fst demo_state) bs \<and> subseq (log_events bs) (s_sent s)"
proof -
  obtain s q where r: "sys_run demo_flaky demo_run_cfg (calm demo_sample)
      (sys_start (Some zeroed_queue) (fst demo_state) demo_world) s" "s_main s = Shutdown"
    using complete_run [OF created_zeroed, of demo_run_cfg demo_flaky demo_sample "fst demo_state" demo_world]
    by (auto simp: demo_run_cfg_def)
  from program_posts [OF created_zeroed demo_batch_ok r(1)] r show ?thesis by (auto simp: demo_world_def)
qed

theorem collector_terminates_witness:
  "co_pc (collector_run demo_run_cfg (replicate 38 (demo_sample, False, None)) collector_start) = Collector_Exit \<and>
   rows (collector_run demo_run_cfg (replicate 38 (demo_sample, False, None)) collector_start) = 1"
  using collector_terminates [of demo_run_cfg "replicate 38 (demo_sample, False, None)"]
  by (simp add: demo_run_cfg_def)

theorem shutdown_race_witness:
  "\<exists>s m. sys_run demo_env demo_run_cfg (\<lambda>_. True) demo_start s \<and> s_main s = Shutdown \<and>
    s_sent s = [m] \<and> backlog s = [m] \<and> s_emitted s = []"
  by (rule shutdown_race [OF created_zeroed])

text \<open>Both threads exist, neither has moved.\<close>

definition demo_threads :: sys where
  "demo_threads = demo_start\<lparr>s_collector := Some collector_start,
     s_delivery := Some (delivery_start (replicate 1000 undefined) (Some zeroed_queue)), s_main := Join_Collector\<rparr>"

lemma demo_threads_run: "sys_run demo_env demo_run_cfg (\<lambda>_. True) demo_start demo_threads"
proof -
  let ?b = "replicate 1000 undefined :: event_queue_entry list"
  let ?s1 = "demo_start\<lparr>s_collector := Some collector_start, s_main := Create_Delivery\<rparr>"
  have "demo_threads = ?s1\<lparr>s_delivery := Some (delivery_start ?b (s_queue ?s1)), s_main := Join_Collector\<rparr>"
    by (simp add: demo_threads_def)
  moreover have "sys_run demo_env demo_run_cfg (\<lambda>_. True) demo_start \<dots>"
    by (intro run_trans [OF run_one [OF sys_step.create_collector] run_one [OF sys_step.create_delivery]]) simp_all
  ultimately show ?thesis by simp
qed

lemma demo_threads_simps [simp]:
  "s_collector demo_threads = Some collector_start" "s_queue demo_threads = Some zeroed_queue"
  "s_main demo_threads = Join_Collector" "s_sent demo_threads = []" "s_emitted demo_threads = []"
  "s_delivery demo_threads = Some (delivery_start (replicate 1000 undefined) (Some zeroed_queue))"
  by (simp_all add: demo_threads_def)

theorem stop_drains_witness:
  "\<exists>s s' m. sys_run demo_env demo_run_cfg (\<lambda>_. True) demo_start s \<and> backlog s = [m] \<and>
     sys_run demo_env demo_run_cfg (\<lambda>a. a = Delivery_Step) s s' \<and> delivery_done s' \<and> s_emitted s' = [m]"
proof -
  let ?s = "demo_threads\<lparr>s_stop := True\<rparr>"
  obtain s m where s: "sys_run demo_env demo_run_cfg (\<lambda>a. a = Collector_Step demo_sample) ?s s" "backlog s = [m]"
    "s_delivery s = Some (delivery_start (replicate 1000 undefined) (Some zeroed_queue))" "s_emitted s = []"
    using collector_stops [of ?s zeroed_queue demo_env demo_run_cfg demo_sample] by auto
  have "s_stop s"
    using s(1) by (rule run_invariant) (auto elim!: sys_stepE)
  have run: "sys_run demo_env demo_run_cfg (\<lambda>_. True) demo_start s"
    using run_trans [OF demo_threads_run run_trans [OF run_one [OF sys_step.signal] run_mono [OF s(1)]]] by simp
  from stop_drains [OF created_zeroed run \<open>s_stop s\<close> s(3)] s run show ?thesis
    by (auto simp: delivery_start_def pending_def batch_rest_def)
qed





end
