(* ===== verification/Process.thy ===== *)
theory Process
  imports Cpu Rate_Interface Config_State "HOL-Library.Multiset"
begin

text \<open>
  The process collector of \<^verbatim>\<open>src/process.c\<close>: the busiest or largest processes, with a CPU
  share computed against the tick counts of the previous call.

  The static variables are the record \<open>tick_state\<close>. What the \<^verbatim>\<open>/proc\<close> file system holds
  is a \<open>proc_fs\<close>, and \<^verbatim>\<open>qsort\<close> is an argument: the C library only promises a permutation
  sorted by the comparison, and leaves the order of equal elements open (\<open>qsort_ok\<close>).
\<close>

section \<open>State\<close>

definition MAX_PROCESSES :: nat where "MAX_PROCESSES = 2048"

record process_entry =
  pe_pid :: int
  pe_comm :: cstring
  cpu_pct :: double
  mem_bytes :: u64

type_synonym process_tick_entry = "int \<times> u64"

record tick_state =
  prev_ticks :: "process_tick_entry list"
  prev_total_cpu :: u64
  prev_initialized :: bool

record proc_fs =
  fs_proc_stat :: "char list option"
  fs_dir :: "cstring list option"
  fs_pid_stat :: "int \<Rightarrow> char list option"
  fs_pid_status :: "int \<Rightarrow> char list option"

section \<open>Reading \<^verbatim>\<open>/proc\<close>\<close>

fun all_digits :: "cstring \<Rightarrow> bool" where
  "all_digits [] = True"
| "all_digits (c # s) = (if \<not> isdigit c then False else all_digits s)"

definition is_pid_name :: "cstring option \<Rightarrow> bool" where
  "is_pid_name namep = (case namep of None \<Rightarrow> False | Some name \<Rightarrow> name \<noteq> [] \<and> all_digits name)"

text \<open>\<^verbatim>\<open>atoi\<close> as glibc documents it: \<^verbatim>\<open>(int) strtol(s, NULL, 10)\<close>.\<close>

definition atoi :: "cstring \<Rightarrow> int" where
  "atoi s = (case strtol s of None \<Rightarrow> 0 | Some (v, _) \<Rightarrow> sint (word_of_int v :: 32 word))"

text \<open>The first line of a file that can be opened and is not empty.\<close>

definition first_line :: "nat \<Rightarrow> char list option \<Rightarrow> cstring option" where
  "first_line size_line content =
     (case content of
        None \<Rightarrow> None
      | Some s \<Rightarrow> if s = [] then None else Some (cstr (fst (fgets_split (size_line - 1) s))))"

definition read_total_cpu_jiffies :: "(nat \<Rightarrow> u64) \<Rightarrow> char list option \<Rightarrow> u64 option" where
  "read_total_cpu_jiffies junk content =
     (case first_line 512 content of
        None \<Rightarrow> None
      | Some line \<Rightarrow>
          let vs = scan_total line
          in if length vs < 4 then None else Some (cpu_total_jiffies (parsed_times junk vs)))"

fun find_prev_pid :: "process_tick_entry list \<Rightarrow> int \<Rightarrow> u64 option" where
  "find_prev_pid [] pid = None"
| "find_prev_pid ((p, ticks) # ts) pid = (if p = pid then Some ticks else find_prev_pid ts pid)"

text \<open>\<^verbatim>\<open>strchr\<close> and \<^verbatim>\<open>strrchr\<close> as offsets.\<close>

definition strchr :: "cstring \<Rightarrow> char \<Rightarrow> nat option" where
  "strchr s c = (if c \<in> set s then Some (length (takeWhile (\<lambda>d. d \<noteq> c) s)) else None)"

definition strrchr :: "cstring \<Rightarrow> char \<Rightarrow> nat option" where
  "strrchr s c = map_option (\<lambda>i. length s - 1 - i) (strchr (rev s) c)"

definition read_process_stat :: "nat \<Rightarrow> char list option \<Rightarrow> (cstring \<times> u64) option" where
  "read_process_stat comm_len content =
     (case first_line 1024 content of
        None \<Rightarrow> None
      | Some line \<Rightarrow>
          (case (strchr line (CHR ''(''), strrchr line (CHR '')'')) of
             (Some lpar, Some rpar) \<Rightarrow>
               if rpar \<le> lpar then None
               else if drop (rpar + 1) line = [] then None
               else
                 let comm = copy_trunc comm_len (drop (lpar + 1) (take rpar line));
                     rest = copy_trunc 1024 (drop (rpar + 2) line);
                     tokens = take 64 (strtok_all (\<lambda>c. c = SPC) rest)
                 in if length tokens \<le> 12 then None
                    else (case (parse_ull (tokens ! 11), parse_ull (tokens ! 12)) of
                            (Some utime, Some stime) \<Rightarrow> Some (comm, utime + stime)
                          | _ \<Rightarrow> None)
           | _ \<Rightarrow> None))"

text \<open>\<^verbatim>\<open>sscanf(line, "VmRSS: %llu kB", &kb) == 1\<close>\<close>

definition scan_rss :: "cstring \<Rightarrow> u64 option" where
  "scan_rss line = Option.bind (scan_lit ''VmRSS:'' line) (\<lambda>s. map_option fst (scan_llu s))"

fun rss_lines :: "cstring list \<Rightarrow> u64" where
  "rss_lines [] = 0"
| "rss_lines (line # ls) = (case scan_rss line of Some kb \<Rightarrow> kb * 1024 | None \<Rightarrow> rss_lines ls)"

definition read_process_rss_bytes :: "char list option \<Rightarrow> u64 option" where
  "read_process_rss_bytes content = map_option (\<lambda>s. rss_lines (fgets_lines 256 s)) content"

section \<open>The list\<close>

definition cmp_cpu_desc :: "process_entry \<Rightarrow> process_entry \<Rightarrow> int" where
  "cmp_cpu_desc a b = (if cpu_pct a < cpu_pct b then 1 else if cpu_pct a > cpu_pct b then -1 else 0)"

definition cmp_mem_desc :: "process_entry \<Rightarrow> process_entry \<Rightarrow> int" where
  "cmp_mem_desc a b = (if mem_bytes a < mem_bytes b then 1 else if mem_bytes a > mem_bytes b then -1 else 0)"

text \<open>What one directory entry contributes: nothing, or an entry and its tick count.\<close>

definition process_one :: "proc_fs \<Rightarrow> tick_state \<Rightarrow> u64 \<Rightarrow> cstring \<Rightarrow> (process_entry \<times> u64) option" where
  "process_one fs st total_delta name =
     (if \<not> is_pid_name (Some name) then None
      else
        let pid = atoi name
        in if pid \<le> 0 then None
           else
             (case read_process_stat 64 (fs_pid_stat fs pid) of
                None \<Rightarrow> None
              | Some (comm, proc_ticks) \<Rightarrow>
                  (case read_process_rss_bytes (fs_pid_status fs pid) of
                     None \<Rightarrow> None
                   | Some rss \<Rightarrow>
                       let proc_delta =
                             (case find_prev_pid (prev_ticks st) pid of
                                Some ticks \<Rightarrow> if proc_ticks \<ge> ticks then proc_ticks - ticks else 0
                              | None \<Rightarrow> 0);
                           pct = (if total_delta > 0
                                  then d_mul 100 (d_div (d_of_u64 proc_delta) (d_of_u64 total_delta))
                                  else 0)
                       in Some (\<lparr>pe_pid = pid, pe_comm = comm, cpu_pct = clamp_double pct 0 100,
                                 mem_bytes = rss\<rparr>, proc_ticks))))"

fun process_loop ::
  "proc_fs \<Rightarrow> tick_state \<Rightarrow> u64 \<Rightarrow> cstring list \<Rightarrow> process_entry list \<times> process_tick_entry list
     \<Rightarrow> process_entry list \<times> process_tick_entry list" where
  "process_loop fs st total_delta [] (out, ticks) = (out, ticks)"
| "process_loop fs st total_delta (name # ns) (out, ticks) =
     (if length out < MAX_PROCESSES then
        (case process_one fs st total_delta name of
           None \<Rightarrow> process_loop fs st total_delta ns (out, ticks)
         | Some (e, t) \<Rightarrow>
             process_loop fs st total_delta ns
               (out @ [e], if length ticks < MAX_PROCESSES then ticks @ [(pe_pid e, t)] else ticks))
      else (out, ticks))"

type_synonym qsort_fun = "(process_entry \<Rightarrow> process_entry \<Rightarrow> int) \<Rightarrow> process_entry list \<Rightarrow> process_entry list"

text \<open>The return code, \<^verbatim>\<open>*out\<close> (if the pointer is not NULL) and the static variables.\<close>

definition process_read_list ::
  "qsort_fun \<Rightarrow> (nat \<Rightarrow> u64) \<Rightarrow> proc_fs \<Rightarrow> process_entry list option \<Rightarrow> process_sort_mode \<Rightarrow> int
     \<Rightarrow> tick_state \<Rightarrow> rc \<times> process_entry list option \<times> tick_state" where
  "process_read_list qsort junk fs outp sort_mode limit st =
     (case outp of
        None \<Rightarrow> (-1, None, st)
      | Some _ \<Rightarrow>
          if limit \<le> 0 then (0, Some [], st)
          else
            let limit = (if limit > int MAX_PROCESSES then int MAX_PROCESSES else limit)
            in (case read_total_cpu_jiffies junk (fs_proc_stat fs) of
                  None \<Rightarrow> (-1, Some [], st)
                | Some total_cpu \<Rightarrow>
                    let total_delta = (if prev_initialized st \<and> total_cpu \<ge> prev_total_cpu st
                                       then total_cpu - prev_total_cpu st else 0)
                    in (case fs_dir fs of
                          None \<Rightarrow> (-1, Some [], st)
                        | Some names \<Rightarrow>
                            let (out, ticks) = process_loop fs st total_delta names ([], []);
                                out = (if sort_mode = PROCESS_SORT_MEM then qsort cmp_mem_desc out
                                       else qsort cmp_cpu_desc out);
                                out = (if int (length out) > limit then take (nat limit) out else out)
                            in (0, Some out,
                                \<lparr>prev_ticks = ticks, prev_total_cpu = total_cpu, prev_initialized = True\<rparr>))))"

section \<open>The C library's sort\<close>

definition total_preorder :: "(process_entry \<Rightarrow> process_entry \<Rightarrow> int) \<Rightarrow> bool" where
  "total_preorder cmp \<longleftrightarrow>
     (\<forall>a b. cmp a b \<le> 0 \<or> cmp b a \<le> 0) \<and> (\<forall>a b c. cmp a b \<le> 0 \<longrightarrow> cmp b c \<le> 0 \<longrightarrow> cmp a c \<le> 0)"

definition qsort_ok :: "qsort_fun \<Rightarrow> bool" where
  "qsort_ok qsort \<longleftrightarrow>
     (\<forall>cmp xs. total_preorder cmp \<longrightarrow>
        mset (qsort cmp xs) = mset xs \<and> sorted_wrt (\<lambda>a b. cmp a b \<le> 0) (qsort cmp xs))"

lemma cmp_le_0: "cmp_cpu_desc a b \<le> 0 \<longleftrightarrow> cpu_pct b \<le> cpu_pct a" "cmp_mem_desc a b \<le> 0 \<longleftrightarrow> mem_bytes b \<le> mem_bytes a"
  by (auto simp: cmp_cpu_desc_def cmp_mem_desc_def)

lemma cmp_preorder [simp]: "total_preorder cmp_cpu_desc" "total_preorder cmp_mem_desc"
  by (auto simp: total_preorder_def cmp_le_0)

text \<open>The order the caller asked for.\<close>

definition ranks_before :: "process_sort_mode \<Rightarrow> process_entry \<Rightarrow> process_entry \<Rightarrow> bool" where
  "ranks_before sort_mode a b \<longleftrightarrow>
     (if sort_mode = PROCESS_SORT_MEM then mem_bytes b \<le> mem_bytes a else cpu_pct b \<le> cpu_pct a)"

lemma sorted_by_mode:
  assumes "qsort_ok qsort"
  shows "mset (if sort_mode = PROCESS_SORT_MEM then qsort cmp_mem_desc out else qsort cmp_cpu_desc out) = mset out"
    "sorted_wrt (ranks_before sort_mode)
      (if sort_mode = PROCESS_SORT_MEM then qsort cmp_mem_desc out else qsort cmp_cpu_desc out)"
  using assms unfolding qsort_ok_def ranks_before_def
  by (cases sort_mode; simp add: cmp_le_0 [symmetric])+

section \<open>Lemmas\<close>

lemma process_loop_spec:
  "length out = length ticks \<Longrightarrow> length out \<le> MAX_PROCESSES \<Longrightarrow>
     process_loop fs st d ns (out, ticks) =
       (let es = take (MAX_PROCESSES - length out) (List.map_filter (process_one fs st d) ns)
        in (out @ map fst es, ticks @ map (\<lambda>(e, t). (pe_pid e, t)) es))"
proof (induction ns arbitrary: out ticks)
  case (Cons n ns)
  show ?case
  proof (cases "length out < MAX_PROCESSES")
    case True
    then have "MAX_PROCESSES - length out = Suc (MAX_PROCESSES - Suc (length out))" by simp
    moreover have "length (out @ [e]) = length (ticks @ [t])" "length (out @ [e]) \<le> MAX_PROCESSES" for e t
      using Cons.prems(1) True by simp_all
    ultimately show ?thesis
      using True Cons.prems(1) Cons.IH
      by (cases "process_one fs st d n") (auto simp: List.map_filter_def Let_def)
  qed (use Cons.prems in simp)
qed (simp add: List.map_filter_def)

lemma process_one_pct: "process_one fs st d name = Some (e, t) \<Longrightarrow> pct_ok (cpu_pct e) \<and> (d = 0 \<longrightarrow> cpu_pct e = 0)"
  by (auto simp: process_one_def Let_def pct_ok_def clamp_bounds split: if_split_asm option.split_asm)

lemma process_loop_pct:
  assumes "process_loop fs st d ns ([], []) = (out, ticks)" "e \<in> set out"
  shows "pct_ok (cpu_pct e) \<and> (d = 0 \<longrightarrow> cpu_pct e = 0)"
proof -
  have "out = map fst (take MAX_PROCESSES (List.map_filter (process_one fs st d) ns))"
    using process_loop_spec [of "[]" "[]" fs st d ns] assms(1) by (simp add: Let_def)
  then obtain t where "(e, t) \<in> set (List.map_filter (process_one fs st d) ns)"
    using assms(2) by (auto dest: in_set_takeD)
  then show ?thesis by (auto simp: List.map_filter_def dest: process_one_pct)
qed

text \<open>The tick delta of the whole machine, as the call computes it.\<close>

definition machine_delta :: "(nat \<Rightarrow> u64) \<Rightarrow> proc_fs \<Rightarrow> tick_state \<Rightarrow> u64" where
  "machine_delta junk fs st =
     (case read_total_cpu_jiffies junk (fs_proc_stat fs) of
        None \<Rightarrow> 0
      | Some ttl \<Rightarrow> if prev_initialized st \<and> ttl \<ge> prev_total_cpu st then ttl - prev_total_cpu st else 0)"

lemma process_read_list_ok:
  assumes "process_read_list qsort junk fs (Some old) sort_mode limit st = (0, Some out, st')" "0 < limit"
  obtains names full ticks where "fs_dir fs = Some names"
    "process_loop fs st (machine_delta junk fs st) names ([], []) = (full, ticks)"
    "out = take (nat (min limit (int MAX_PROCESSES)))
       (if sort_mode = PROCESS_SORT_MEM then qsort cmp_mem_desc full else qsort cmp_cpu_desc full)"
    "prev_ticks st' = ticks" "prev_initialized st'"
proof -
  obtain ttl where t: "read_total_cpu_jiffies junk (fs_proc_stat fs) = Some ttl"
    using assms by (auto simp: process_read_list_def Let_def split: option.splits)
  obtain names where n: "fs_dir fs = Some names"
    using assms t by (auto simp: process_read_list_def Let_def split: option.splits)
  obtain full ticks where l: "process_loop fs st (machine_delta junk fs st) names ([], []) = (full, ticks)"
    by fastforce
  have d: "machine_delta junk fs st =
      (if prev_initialized st \<and> ttl \<ge> prev_total_cpu st then ttl - prev_total_cpu st else 0)"
    by (simp add: machine_delta_def t)
  have m: "(if limit > int MAX_PROCESSES then int MAX_PROCESSES else limit) = min limit (int MAX_PROCESSES)"
    by auto
  have take_if: "(if int (length xs) > k then take (nat k) xs else xs) = take (nat k) xs"
    for xs :: "process_entry list" and k by (auto simp: not_less)
  have "out = take (nat (min limit (int MAX_PROCESSES)))
       (if sort_mode = PROCESS_SORT_MEM then qsort cmp_mem_desc full else qsort cmp_cpu_desc full)
     \<and> prev_ticks st' = ticks \<and> prev_initialized st'"
    using assms t n l [unfolded d] unfolding process_read_list_def option.case m Let_def take_if
    by (auto split: if_splits)
  with n l that show ?thesis by blast
qed

section \<open>Properties\<close>

text \<open>C37: For any sort the C library may use, the list holds the first processes in the requested
  order among all those read: it is the front of a sorted arrangement of them, cut at the limit, and
  every CPU share lies between 0 and 100 percent.\<close>

theorem process_list_top:
  assumes "qsort_ok qsort" "0 < limit"
    "process_read_list qsort junk fs (Some old) sort_mode limit st = (0, Some out, st')"
  shows "\<exists>names omitted. fs_dir fs = Some names \<and>
    mset (out @ omitted) = mset (map fst (take 2048 (List.map_filter
      (process_one fs st (machine_delta junk fs st)) names))) \<and>
    sorted_wrt (ranks_before sort_mode) (out @ omitted) \<and>
    length out \<le> nat (min limit 2048) \<and> (omitted \<noteq> [] \<longrightarrow> length out = nat (min limit 2048)) \<and>
    list_all (\<lambda>e. pct_ok (cpu_pct e)) out"
proof -
  from process_read_list_ok [OF assms(3,2)] obtain names full ticks where
    n: "fs_dir fs = Some names" and l: "process_loop fs st (machine_delta junk fs st) names ([], []) = (full, ticks)"
    and out: "out = take (nat (min limit (int MAX_PROCESSES)))
       (if sort_mode = PROCESS_SORT_MEM then qsort cmp_mem_desc full else qsort cmp_cpu_desc full)" by blast
  define s where "s = (if sort_mode = PROCESS_SORT_MEM then qsort cmp_mem_desc full else qsort cmp_cpu_desc full)"
  let ?k = "nat (min limit (int MAX_PROCESSES))"
  have s: "mset s = mset full" "sorted_wrt (ranks_before sort_mode) s"
    using sorted_by_mode [OF assms(1)] by (simp_all add: s_def)
  have o: "out = take ?k s" "out @ drop ?k s = s" by (simp_all add: out s_def)
  have "full = map fst (take MAX_PROCESSES (List.map_filter (process_one fs st (machine_delta junk fs st)) names))"
    using process_loop_spec [of "[]" "[]" fs st "machine_delta junk fs st" names] l by (simp add: Let_def)
  moreover have "pct_ok (cpu_pct e)" if "e \<in> set out" for e
  proof -
    have "e \<in> set full" using that o(1) s(1) by (metis in_set_takeD set_mset_mset)
    then show ?thesis using process_loop_pct [OF l] by blast
  qed
  ultimately show ?thesis
    using n o s by (intro exI [of _ names] exI [of _ "drop ?k s"]) (auto simp: MAX_PROCESSES_def list_all_iff)
qed

text \<open>On the first call there is nothing to compare with: every process is reported with a CPU
  share of 0, and the tick counts of the processes listed are kept for the next call.\<close>

theorem process_first_call:
  assumes "qsort_ok qsort" "0 < limit" "\<not> prev_initialized st"
    "process_read_list qsort junk fs (Some old) sort_mode limit st = (0, Some out, st')"
  shows "list_all (\<lambda>e. cpu_pct e = 0) out \<and> prev_initialized st' \<and>
    pe_pid ` set out \<subseteq> fst ` set (prev_ticks st')"
proof -
  from process_read_list_ok [OF assms(4,2)] obtain names full ticks where
    l: "process_loop fs st (machine_delta junk fs st) names ([], []) = (full, ticks)"
    and out: "out = take (nat (min limit (int MAX_PROCESSES)))
       (if sort_mode = PROCESS_SORT_MEM then qsort cmp_mem_desc full else qsort cmp_cpu_desc full)"
    and st': "prev_ticks st' = ticks" "prev_initialized st'" by blast
  have "machine_delta junk fs st = 0" using assms(3) by (simp add: machine_delta_def split: option.split)
  moreover have sub: "set out \<subseteq> set full"
    using sorted_by_mode(1) [OF assms(1), of sort_mode full] unfolding out
    by (metis set_mset_mset set_take_subset)
  ultimately have "list_all (\<lambda>e. cpu_pct e = 0) out"
    using process_loop_pct [OF l] by (auto simp: list_all_iff)
  moreover have "pe_pid ` set full = fst ` set ticks"
    using process_loop_spec [of "[]" "[]" fs st "machine_delta junk fs st" names] l
    by (auto simp: Let_def image_image case_prod_beta)
  ultimately show ?thesis using st' sub by blast
qed

section \<open>Process names\<close>

lemma strchr_first: "c \<notin> set s \<Longrightarrow> strchr (s @ c # t) c = Some (length s)"
proof -
  assume "c \<notin> set s"
  then have "takeWhile (\<lambda>d. d \<noteq> c) (s @ c # t) = s" by (intro takeWhile_stop) auto
  then show ?thesis by (simp add: strchr_def)
qed

lemma strrchr_last: "c \<notin> set t \<Longrightarrow> strrchr (s @ c # t) c = Some (length s)"
  using strchr_first [of c "rev t" "rev s"] by (simp add: strrchr_def)

lemma drop_past:
  "drop (length xs + 1) (xs @ c # ys) = ys"
  "drop (length xs + 2) (xs @ c # d # ys) = ys"
  "drop (length xs + 1) (take (length (xs @ c # ys)) (xs @ c # ys @ zs)) = ys"
  by simp_all

text \<open>The line of \<^verbatim>\<open>/proc/PID/stat\<close>: the name in parentheses, then the fields, of which the
  12th and the 13th are the user and system ticks.\<close>

definition stat_text :: "nat \<Rightarrow> cstring \<Rightarrow> cstring list \<Rightarrow> u64 \<Rightarrow> u64 \<Rightarrow> cstring list \<Rightarrow> cstring" where
  "stat_text pid comm before utime stime after =
     show_nat pid @ '' ('' @ comm @ '')'' @
     fields_line (before @ [show_nat (unat utime), show_nat (unat stime)] @ after) @ [LF]"

definition stat_field :: "cstring \<Rightarrow> bool" where
  "stat_field t \<longleftrightarrow> t \<noteq> [] \<and> SPC \<notin> set t \<and> CHR '')'' \<notin> set t \<and> LF \<notin> set t \<and> no_nul t"

lemma fields_line_snoc: "fields_line (ts @ [t]) @ s = fields_line (ts @ [t @ s])"
  by (induction ts) simp_all

lemma fields_line_append: "fields_line (ts @ us) = fields_line ts @ fields_line us"
  by (induction ts) simp_all

lemma fields_line_chars:
  "(\<forall>t \<in> set ts. c \<notin> set t) \<Longrightarrow> c \<noteq> SPC \<Longrightarrow> c \<notin> set (fields_line ts)"
  by (induction ts) auto

lemma stat_field_number: "stat_field (show_nat n)"
proof -
  have "\<not> isdigit (CHR '')'')" by (simp add: isdigit_def char_code_def)
  then show ?thesis using isdigit_show_nat [of n] show_nat_chars [of n] by (auto simp: stat_field_def)
qed

text \<open>The name ends at the last parenthesis of the line, whatever it contains.\<close>

lemma stat_text_read:
  assumes "LF \<notin> set comm" "no_nul comm" "length comm < 64"
    "length before = 11" "after \<noteq> []" "list_all stat_field (before @ after)"
    "length (stat_text pid comm before utime stime after) < 1024"
  shows "read_process_stat 64 (Some (stat_text pid comm before utime stime after)) = Some (comm, utime + stime)"
proof -
  let ?ts = "before @ [show_nat (unat utime), show_nat (unat stime)] @ after"
  let ?pre = "show_nat pid @ '' ''"
  let ?line = "stat_text pid comm before utime stime after"
  have ok: "list_all stat_field ?ts" using assms(6) stat_field_number by simp
  then have "\<forall>t \<in> set ?ts. LF \<notin> set t \<and> CHR '')'' \<notin> set t \<and> NUL \<notin> set t"
    unfolding list_all_iff stat_field_def no_nul_def by blast
  then have f: "LF \<notin> set (fields_line ?ts)" "CHR '')'' \<notin> set (fields_line ?ts)" "NUL \<notin> set (fields_line ?ts)"
    by (intro fields_line_chars; simp)+
  let ?body = "show_nat pid @ '' ('' @ comm @ '')'' @ fields_line ?ts"
  have "fgets_split 1023 (?body @ LF # []) = (?body @ [LF], [])"
    using assms(1,7) f(1) by (intro fgets_split_line) (auto simp: show_nat_chars stat_text_def)
  moreover have "no_nul (fields_line ?ts)" using f(3) unfolding no_nul_def .
  then have "no_nul ?body" using assms(2) by simp
  ultimately have first: "first_line 1024 (Some ?line) = Some ?line"
    by (simp add: first_line_def stat_text_def cstr_id)
  have "CHR ''('' \<notin> set ?pre" using isdigit_show_nat [of pid] by (auto simp: isdigit_def char_code_def)
  from strchr_first [OF this, of "comm @ '')'' @ fields_line ?ts @ [LF]"]
  have l: "strchr ?line (CHR ''('') = Some (length ?pre)" by (simp add: stat_text_def)
  have r: "strrchr ?line (CHR '')'') = Some (length (?pre @ ''('' @ comm))"
    using strrchr_last [of "CHR '')''" "fields_line ?ts @ [LF]" "?pre @ ''('' @ comm"] f(2)
    by (simp add: stat_text_def)
  obtain b bs where b: "before = b # bs" using assms(4) by (cases before) auto
  obtain a as where a: "after = as @ [a]" using assms(5) by (cases after rule: rev_cases) auto
  let ?us = "before @ [show_nat (unat utime), show_nat (unat stime)] @ as @ [a @ [LF]]"
  have us: "fields_line ?ts @ [LF] = fields_line ?us" unfolding a
    using fields_line_snoc [of "before @ [show_nat (unat utime), show_nat (unat stime)] @ as" a "[LF]"] by simp
  have "strtok_all (\<lambda>c. c = SPC) (fields_line ?us) = ?us"
    using ok by (intro strtok_tokens) (auto simp: a list_all_iff stat_field_def)
  moreover obtain rest where rest: "fields_line ?us = SPC # rest" by (simp add: b)
  moreover have "strtok_all (\<lambda>c. c = SPC) (SPC # rest) = strtok_all (\<lambda>c. c = SPC) rest"
    by (subst (1 2) strtok_all.simps) simp
  ultimately have toks: "strtok_all (\<lambda>c. c = SPC) rest = ?us" by simp
  have line: "?line = ?pre @ ''('' @ comm @ '')'' @ SPC # rest" using us rest by (simp add: stat_text_def)
  have "drop (length (?pre @ ''('' @ comm) + 1) ?line = SPC # rest"
    "drop (length (?pre @ ''('' @ comm) + 2) ?line = rest"
    "drop (length ?pre + 1) (take (length (?pre @ ''('' @ comm)) ?line) = comm"
    using drop_past(1) [of "?pre @ ''('' @ comm" "CHR '')''" "SPC # rest"]
      drop_past(2) [of "?pre @ ''('' @ comm" "CHR '')''" SPC rest]
      drop_past(3) [of ?pre "CHR ''(''" comm "'')'' @ SPC # rest"]
    unfolding line by simp_all
  moreover have "length rest < 1024" using assms(7) by (simp add: line)
  moreover have "take 64 ?us ! 11 = show_nat (unat utime)" "take 64 ?us ! 12 = show_nat (unat stime)"
    "\<not> length (take 64 ?us) \<le> 12"
    using assms(4) by (simp_all add: nth_append)
  ultimately show ?thesis
    using assms(3) unfolding read_process_stat_def first option.case l r prod.case Let_def
    by (simp add: toks)
qed

lemma pid_name: "0 < pid \<Longrightarrow> pid < 2 ^ 31 \<Longrightarrow> is_pid_name (Some (show_nat pid)) \<and> atoi (show_nat pid) = int pid"
proof -
  assume p: "0 < pid" "pid < 2 ^ 31"
  have "\<forall>c \<in> set s. isdigit c \<Longrightarrow> all_digits s" for s by (induction s) auto
  then have "is_pid_name (Some (show_nat pid))" using isdigit_show_nat by (simp add: is_pid_name_def)
  moreover have "strtol (show_nat pid) = Some (int pid, [], False)"
    using strtol_show_int [of "[]" "[]" "int pid"] p by (simp add: show_int_def LONG_MAX_def LONG_MIN_def)
  moreover have "sint (word_of_int (int pid) :: 32 word) = int pid"
    unfolding int_word_sint using p by simp
  ultimately show ?thesis by (simp add: atoi_def)
qed

definition rss_text :: "nat \<Rightarrow> u64 \<Rightarrow> cstring" where
  "rss_text pad kb = (''VmRSS:'' @ replicate pad SPC @ SPC # show_nat (unat kb) @ '' kB'') @ [LF]"

lemma scan_rss_text: "scan_rss (rss_text pad kb) = Some kb"
proof -
  have "dropWhile isspace (replicate pad SPC @ s) = dropWhile isspace s" for s
    by (induction pad) simp_all
  then have "scan_llu (replicate pad SPC @ s) = scan_llu s" for s
    by (simp add: scan_llu_def strtoull_def)
  moreover have "num_end ('' kB'' @ [LF])" by (simp add: isdigit_def char_code_def)
  from scan_llu_u64 [OF this] have "scan_llu (SPC # show_nat (unat kb) @ '' kB'' @ [LF]) = Some (kb, '' kB'' @ [LF])" .
  ultimately show ?thesis by (simp add: scan_rss_def rss_text_def)
qed

lemma rss_lines_first: "\<forall>l \<in> set pre. scan_rss l = None \<Longrightarrow> rss_lines (pre @ rss_text pad kb # ls) = kb * 1024"
  by (induction pre) (simp_all add: scan_rss_text)

lemma rss_read:
  assumes "list_all (\<lambda>l. text_line 256 l \<and> scan_rss l = None) pre" "pad \<le> 100"
  shows "read_process_rss_bytes (Some (concat pre @ rss_text pad kb @ rest)) = Some (kb * 1024)"
proof -
  have "no_nul (replicate pad SPC)" by (simp add: no_nul_def)
  then have "text_line 256 (rss_text pad kb)"
    using assms(2) length_show_u64 [of kb] unfolding rss_text_def
    by (intro text_line_intro [OF _ _ _ refl]) (auto simp: show_nat_chars)
  then have "list_all (text_line 256) (pre @ [rss_text pad kb])" using assms(1) by (simp add: list_all_iff)
  from fgets_lines_append [OF this, of rest] rss_lines_first [of pre pad kb] assms(1)
  show ?thesis by (simp add: read_process_rss_bytes_def list_all_iff)
qed

text \<open>A running process is read back from its two files: its name whatever it contains, blanks
  and parentheses included; its resident memory in bytes; and, when its ticks were known, its share
  of the machine's ticks since the previous call, as a percentage of at most 100.\<close>

theorem process_one_exact:
  assumes "0 < pid" "pid < 2 ^ 31" "LF \<notin> set comm" "no_nul comm" "length comm < 64"
    "length before = 11" "after \<noteq> []" "list_all stat_field (before @ after)"
    "length (stat_text pid comm before utime stime after) < 1024"
    "fs_pid_stat fs (int pid) = Some (stat_text pid comm before utime stime after)"
    "list_all (\<lambda>l. text_line 256 l \<and> scan_rss l = None) pre" "pad \<le> 100"
    "fs_pid_status fs (int pid) = Some (concat pre @ rss_text pad kb @ rest)"
    "find_prev_pid (prev_ticks st) (int pid) = Some t0" "0 < d"
  shows "process_one fs st d (show_nat pid) =
    Some (\<lparr>pe_pid = int pid, pe_comm = comm,
           cpu_pct = clamp_double (d_mul 100 (d_div (d_of_u64 (monus (utime + stime) t0)) (d_of_u64 d))) 0 100,
           mem_bytes = kb * 1024\<rparr>, utime + stime)"
  using pid_name [OF assms(1,2)] assms(1,10,13,14,15) stat_text_read [OF assms(3-9)] rss_read [OF assms(11,12)]
  by (simp add: process_one_def monus_def Let_def)

section \<open>Examples\<close>

text \<open>An insertion sort keeps the promise of the C library.\<close>

fun insert_by :: "(process_entry \<Rightarrow> process_entry \<Rightarrow> int) \<Rightarrow> process_entry \<Rightarrow> process_entry list \<Rightarrow> process_entry list" where
  "insert_by cmp x [] = [x]"
| "insert_by cmp x (y # ys) = (if cmp x y \<le> 0 then x # y # ys else y # insert_by cmp x ys)"

definition isort_by :: qsort_fun where
  "isort_by cmp xs = foldr (insert_by cmp) xs []"

lemma insert_by_mset: "mset (insert_by cmp x ys) = add_mset x (mset ys)"
  by (induction ys) auto

lemma insert_by_sorted:
  assumes "total_preorder cmp" "sorted_wrt (\<lambda>a b. cmp a b \<le> 0) ys"
  shows "sorted_wrt (\<lambda>a b. cmp a b \<le> 0) (insert_by cmp x ys)"
  using assms(2)
proof (induction ys)
  case (Cons y ys)
  have mem: "set (insert_by cmp x ys) = insert x (set ys)"
    using insert_by_mset [of cmp x ys] by (metis set_mset_add_mset_insert set_mset_mset)
  show ?case
  proof (cases "cmp x y \<le> 0")
    case True
    then have "\<forall>z \<in> set ys. cmp x z \<le> 0"
      using Cons.prems assms(1) unfolding total_preorder_def by (metis sorted_wrt.simps(2))
    with True Cons.prems show ?thesis by simp
  next
    case False
    then have "cmp y x \<le> 0" using assms(1) unfolding total_preorder_def by blast
    with False Cons mem show ?thesis by simp
  qed
qed simp

lemma isort_by_ok: "qsort_ok isort_by"
proof -
  have "total_preorder cmp \<Longrightarrow> mset (isort_by cmp xs) = mset xs \<and> sorted_wrt (\<lambda>a b. cmp a b \<le> 0) (isort_by cmp xs)"
    for cmp xs
    by (induction xs) (simp_all add: isort_by_def insert_by_mset insert_by_sorted)
  then show ?thesis by (simp add: qsort_ok_def)
qed

definition demo_ticks :: tick_state where
  "demo_ticks = \<lparr>prev_ticks = [], prev_total_cpu = 0, prev_initialized = False\<rparr>"

definition demo_list :: "process_entry list" where
  "demo_list = [\<lparr>pe_pid = 7, pe_comm = ''a (b) c)'', cpu_pct = 0, mem_bytes = 9216\<rparr>]"

lemmas demo_simps = strtoull_def isspace_def isdigit_def char_code_def dec_val_def digit_val_def Let_def

definition demo_stat :: "nat \<Rightarrow> cstring" where
  "demo_stat pid = stat_text pid ''a (b) c)'' (replicate 11 ''0'') 3 1 [''0'']"

definition demo_fs :: proc_fs where
  "demo_fs =
     \<lparr>fs_proc_stat = Some (''cpu 1 2 3 4 5 6 7 8'' @ [LF]), fs_dir = Some [''self'', ''1'', ''7''],
      fs_pid_stat = (\<lambda>pid. Some (demo_stat 42)),
      fs_pid_status = (\<lambda>pid. Some ((if pid = 7 then ''VmRSS: 9 kB'' else ''VmRSS: 2 kB'') @ [LF]))\<rparr>"

lemma demo_stat_fits: "length (stat_text 42 ''a (b) c)'' (replicate 11 ''0'') 3 1 [''0'']) < 1024"
  by code_simp

lemma demo_stat_fields: "list_all stat_field (replicate 11 ''0'' @ [''0''])"
  by (simp add: stat_field_def list_all_iff)

lemma demo_stat_read: "read_process_stat 64 (Some (demo_stat 42)) = Some (''a (b) c)'', 4)"
  using stat_text_read [of "''a (b) c)''" "replicate 11 ''0''" "[''0'']" 42 3 1] demo_stat_fits demo_stat_fields
  by (simp add: demo_stat_def)

lemma demo_eight: "scan_llus 8 s = scan_llus (Suc (Suc (Suc (Suc (Suc (Suc (Suc (Suc 0)))))))) s"
  by (simp add: eval_nat_numeral)

lemma demo_total: "read_total_cpu_jiffies (\<lambda>_. 0) (Some (''cpu 1 2 3 4 5 6 7 8'' @ [LF])) = Some 36"
  by (simp add: read_total_cpu_jiffies_def first_line_def cstr_def scan_total_def scan_llu_def
      demo_simps demo_eight parsed_times_def cpu_total_jiffies_def)

lemma demo_rss:
  "read_process_rss_bytes (Some (''VmRSS: 9 kB'' @ [LF])) = Some 9216"
  "read_process_rss_bytes (Some (''VmRSS: 2 kB'' @ [LF])) = Some 2048"
  using fgets_lines_Cons [of "''VmRSS: 9 kB''" 256 "[]"] fgets_lines_Cons [of "''VmRSS: 2 kB''" 256 "[]"]
  by (simp_all add: read_process_rss_bytes_def scan_rss_def scan_llu_def demo_simps)

lemma demo_one:
  "process_one demo_fs demo_ticks 0 ''self'' = None"
  "process_one demo_fs demo_ticks 0 ''1'' =
     Some (\<lparr>pe_pid = 1, pe_comm = ''a (b) c)'', cpu_pct = 0, mem_bytes = 2048\<rparr>, 4)"
  "process_one demo_fs demo_ticks 0 ''7'' =
     Some (\<lparr>pe_pid = 7, pe_comm = ''a (b) c)'', cpu_pct = 0, mem_bytes = 9216\<rparr>, 4)"
proof -
  have "is_pid_name (Some ''self'') = False" "is_pid_name (Some ''1'')" "is_pid_name (Some ''7'')"
    by (simp_all add: is_pid_name_def isdigit_def char_code_def)
  moreover have "atoi ''1'' = 1" "atoi ''7'' = 7" by code_simp+
  ultimately show "process_one demo_fs demo_ticks 0 ''self'' = None"
    "process_one demo_fs demo_ticks 0 ''1'' =
       Some (\<lparr>pe_pid = 1, pe_comm = ''a (b) c)'', cpu_pct = 0, mem_bytes = 2048\<rparr>, 4)"
    "process_one demo_fs demo_ticks 0 ''7'' =
       Some (\<lparr>pe_pid = 7, pe_comm = ''a (b) c)'', cpu_pct = 0, mem_bytes = 9216\<rparr>, 4)"
    using demo_stat_read demo_rss
    by (simp_all add: process_one_def demo_fs_def demo_ticks_def Let_def)
qed

lemma demo_read:
  "process_read_list isort_by (\<lambda>_. 0) demo_fs (Some []) PROCESS_SORT_MEM 1 demo_ticks =
     (0, Some demo_list, \<lparr>prev_ticks = [(1, 4), (7, 4)], prev_total_cpu = 36, prev_initialized = True\<rparr>)"
proof -
  have "process_loop demo_fs demo_ticks 0 [''self'', ''1'', ''7''] ([], []) =
    ([\<lparr>pe_pid = 1, pe_comm = ''a (b) c)'', cpu_pct = 0, mem_bytes = 2048\<rparr>,
      \<lparr>pe_pid = 7, pe_comm = ''a (b) c)'', cpu_pct = 0, mem_bytes = 9216\<rparr>], [(1, 4), (7, 4)])"
    by (simp add: demo_one MAX_PROCESSES_def)
  moreover have "fs_proc_stat demo_fs = Some (''cpu 1 2 3 4 5 6 7 8'' @ [LF])"
    "fs_dir demo_fs = Some [''self'', ''1'', ''7'']" "\<not> prev_initialized demo_ticks"
    by (simp_all add: demo_fs_def demo_ticks_def)
  ultimately show ?thesis
    using demo_total
    by (simp add: process_read_list_def isort_by_def cmp_mem_desc_def demo_list_def MAX_PROCESSES_def)
qed

theorem process_list_top_witness:
  "\<exists>names omitted. fs_dir demo_fs = Some names \<and>
    mset (demo_list @ omitted) = mset (map fst (take 2048 (List.map_filter
      (process_one demo_fs demo_ticks (machine_delta (\<lambda>_. 0) demo_fs demo_ticks)) names))) \<and>
    sorted_wrt (ranks_before PROCESS_SORT_MEM) (demo_list @ omitted) \<and>
    length demo_list \<le> nat (min 1 2048) \<and> (omitted \<noteq> [] \<longrightarrow> length demo_list = nat (min 1 2048)) \<and>
    list_all (\<lambda>e. pct_ok (cpu_pct e)) demo_list"
  by (rule process_list_top [OF isort_by_ok _ demo_read]) simp

theorem process_first_call_witness:
  "list_all (\<lambda>e. cpu_pct e = 0) demo_list \<and>
    prev_initialized \<lparr>prev_ticks = [(1, 4), (7, 4)], prev_total_cpu = 36, prev_initialized = True\<rparr> \<and>
    pe_pid ` set demo_list \<subseteq>
      fst ` set (prev_ticks \<lparr>prev_ticks = [(1, 4), (7, 4)], prev_total_cpu = 36, prev_initialized = True\<rparr>)"
  by (rule process_first_call [OF isort_by_ok _ _ demo_read]) (simp_all add: demo_ticks_def)

theorem process_one_exact_witness:
  "process_one
      (demo_fs\<lparr>fs_pid_stat := (\<lambda>_. Some (stat_text 42 ''a (b) c)'' (replicate 11 ''0'') 3 1 [''0''])),
               fs_pid_status := (\<lambda>_. Some (concat [''Name: x'' @ [LF]] @ rss_text 2 9 @ ''VmSwap: 0 kB''))\<rparr>)
      (demo_ticks\<lparr>prev_ticks := [(1, 2), (42, 3)]\<rparr>) 8 (show_nat 42) =
    Some (\<lparr>pe_pid = int 42, pe_comm = ''a (b) c)'',
           cpu_pct = clamp_double (d_mul 100 (d_div (d_of_u64 (monus (3 + 1) 3)) (d_of_u64 8))) 0 100,
           mem_bytes = 9 * 1024\<rparr>, 3 + 1)"
proof (rule process_one_exact)
  show "length (stat_text 42 ''a (b) c)'' (replicate 11 ''0'') 3 1 [''0'']) < 1024" by (rule demo_stat_fits)
  show "list_all stat_field (replicate 11 ''0'' @ [''0''])" by (rule demo_stat_fields)
  have "text_line 256 (''Name: x'' @ [LF])" by (rule text_line_intro [OF _ _ _ refl]) simp_all
  then show "list_all (\<lambda>l. text_line 256 l \<and> scan_rss l = None) [''Name: x'' @ [LF]]"
    by (simp add: scan_rss_def)
qed simp_all

end
