(* ===== verification/Spec2Isabelle.thy ===== *)
theory Spec2Isabelle
  imports Startup Program Process
begin

text \<open>
  A verification library for \<^verbatim>\<open>syswatch\<close>, a system-metrics daemon written in C
  (\<^verbatim>\<open>src/\<close>): a collector thread reads \<^verbatim>\<open>/proc\<close>, turns the readings into JSON events and
  puts them into a bounded queue; a delivery thread empties the queue into a backend, which is the
  standard output, a file, or batches posted over HTTP; \<^verbatim>\<open>main\<close> reads the command line and a
  configuration file, starts the threads and shuts the output down; a signal sets \<^verbatim>\<open>g_stop\<close>.

  \<^bold>\<open>The theories and what they model.\<close>

  \<^item> \<open>Prelude\<close>, \<open>C_Lib\<close>, \<open>C_Double\<close>: the machine types, the C library functions the sources
    use on strings and numbers, and the type \<^verbatim>\<open>double\<close> as rounded rationals.
  \<^item> \<open>Fifo_Interface\<close>, \<open>Event_Queue\<close>: \<^verbatim>\<open>queue.c\<close>. The first holds the contract of a bounded
    drop-oldest queue (\<open>drop_oldest_fifo\<close>, \<open>counted_fifo\<close>); the second the ring buffer, its
    invariant \<open>queue_inv\<close>, the list \<open>queue_msgs\<close> it stands for, and the interpretation.
  \<^item> \<open>Utils\<close>: \<^verbatim>\<open>utils.c\<close>, with the RFC 3339 timestamp down to the bytes of its buffers.
  \<^item> \<open>Config_State\<close>, \<open>Config_Loader\<close>: \<^verbatim>\<open>config.c\<close> and \<^verbatim>\<open>init_default_config\<close>. The record
    \<open>syswatch_config\<close> and its well-formedness \<open>cfg_wf\<close>; the setters under the contract
    \<open>config_setter\<close>; the loader, its errors and \<open>validate_config\<close>.
  \<^item> \<open>Json_Escape\<close>, \<open>Json_Spec\<close>, \<open>Events\<close>: \<^verbatim>\<open>json_escape_string\<close> of \<^verbatim>\<open>output.c\<close>, the JSON
    grammar as the specification, and one definition per event text of \<^verbatim>\<open>main.c\<close>.
  \<^item> \<open>Output\<close>: \<^verbatim>\<open>output.c\<close>. The static \<^verbatim>\<open>g_output\<close> is the record \<open>output_state\<close>, the
    effects are the record \<open>output_world\<close>, the answers of the outside are an \<open>output_env\<close>.
  \<^item> \<open>Cpu\<close>, \<open>Memory\<close>, \<open>Rate_Interface\<close>, \<open>Disk\<close>, \<open>Network\<close>, \<open>Process\<close>: the readers of
    \<^verbatim>\<open>/proc\<close> in \<^verbatim>\<open>cpu.c\<close>, \<^verbatim>\<open>memory.c\<close>, \<^verbatim>\<open>disk.c\<close>, \<^verbatim>\<open>network.c\<close> and \<^verbatim>\<open>process.c\<close>;
    \<open>delta_rates\<close> is what the disk and the network rates share.
  \<^item> \<open>Collector\<close>: \<^verbatim>\<open>collector_thread\<close> of \<^verbatim>\<open>main.c\<close>, one step per access to shared state.
  \<^item> \<open>Runtime\<close>: \<^verbatim>\<open>delivery_thread\<close>, \<^verbatim>\<open>main\<close> from the creation of the threads on, and the
    signal handler, interleaved by the step relation \<open>sys_step\<close>; runs are \<open>sys_run\<close>.
  \<^item> \<open>Sinks\<close>: the contract \<open>event_sink\<close> between the delivery thread and a backend, and the
    three backends as its interpretations.
  \<^item> \<open>Program\<close>: the properties of the interleaved program.
  \<^item> \<open>Startup\<close>: \<^verbatim>\<open>parse_args\<close>, \<^verbatim>\<open>print_usage\<close> and \<^verbatim>\<open>main\<close> up to the threads.
  \<^item> This theory: the two properties from the command line to the bytes that leave the program.

  \<^bold>\<open>How the state corresponds to the code.\<close> A struct is a record with the fields of the source. A
  C string is its list of characters without the terminator; where the terminator or the bytes after
  it matter (the JSON buffer, \<^verbatim>\<open>tz_buf\<close>, the queue entries) the buffer is the list of all its bytes.
  An array with a counter of the entries in use is the list of those entries, except in the queue,
  where it is a function of the index, and in the HTTP batch, where it is a list of slots. A counter
  of type \<^verbatim>\<open>unsigned long long\<close> is a 64-bit word and wraps. A failing function returns \<open>None\<close>,
  an error value or the code's -1, as its C counterpart does.

  \<^bold>\<open>What the lemmas show.\<close> Per component: the queue refines a bounded list, delivers every
  schedule in order and keeps its counters; the loader keeps the configuration well-formed, reports
  the first bad line and is inverse to rendering; escaping is inverse to decoding and stays in its
  buffer; the readers of \<^verbatim>\<open>/proc\<close> return exactly the readings of a file, for lines with the
  paddings and the extra fields the kernel prints and with lines they must skip; percentages are in
  range, and the value of every percentage and rate is given down to its roundings; the HTTP batches keep their invariant, their
  sizes and their number of attempts. For the program: no event is invented, duplicated or reordered
  in any run; nothing is lost in a run without signals that does not overflow the queue; every event
  is well-formed JSON; the threads terminate; and, as negative results, the loss a signal can cause
  and the totals the self-metrics report. For the start: the exit codes, what the threads start with,
  and how validation relates to running.

  \<^bold>\<open>Bounds and termination.\<close> No definition uses fuel. The loops that are not structural end by a
  measure: doubling the capacity, the attempts of a post (at most \<^verbatim>\<open>retry_max_attempts\<close> + 1),
  trimming. The threads loop for ever by design, so their loops are steps of \<open>sys_step\<close>; with an
  iteration count n the collector ends within 20 n + 18 steps (\<open>collector_terminates\<close>), and after
  \<^verbatim>\<open>g_stop\<close> the delivery thread ends by a measure on the queue and its batch (\<open>stop_drains\<close>). A
  pass enqueues at most five events and the start two more, so 2 + 5 n at most \<open>MAX_QUEUE_DEPTH\<close>,
  which is 10000, means that the queue cannot overflow.

  \<^bold>\<open>Parameters and assumptions.\<close> Code outside \<^verbatim>\<open>src/\<close> is an argument of the definitions:
  the list of options \<^verbatim>\<open>getopt_long\<close> yields, the contents of files and of \<^verbatim>\<open>/proc\<close>, the clock and
  \<^verbatim>\<open>localtime\<close>, the allocator, libcurl's answers, the environment variables, \<^verbatim>\<open>qsort\<close>, and the
  bytes of uninitialised locals. Named hypotheses state what a property needs of them: \<open>healthy\<close>
  (every allocation and transfer succeeds with a 2xx status), \<open>good_answers\<close> (the timestamps
  are JSON string bodies and the device names need no escaping), \<open>qsort_ok\<close>. Each queue function
  is one atomic step, because its body is one critical section; \<^verbatim>\<open>g_stop\<close> is read and written
  atomically. Whether the memory for an error message can be had is a flag of \<open>main_env\<close>.
  \<^verbatim>\<open>curl_slist_append\<close> and \<^verbatim>\<open>curl_easy_setopt\<close> are assumed not to fail: the code ignores
  their results, and a request carries the headers and options it was given (\<open>http_request\<close>).

  \<^bold>\<open>Not modelled, and why.\<close> \<^verbatim>\<open>queue_destroy\<close> only frees; freeing and closing have no value in the
  model beyond the fields that become empty. The order between the standard output and the standard
  error, and what \<^verbatim>\<open>getopt_long\<close> itself prints, are not kept. Writes to the backends that fail after
  the file was opened are not seen by the code, which ignores the result of \<^verbatim>\<open>fprintf\<close>. The number
  of passes is an unbounded integer, so the overflow of \<^verbatim>\<open>rows\<close> after 2^31 - 1 passes is left out.
  The web dashboard, the shell tests, the build files and the documents are not part of the C program.
\<close>

section \<open>The whole program\<close>

text \<open>C1: From the command line to the standard output or a file: when the configuration asks for n
  passes with 2 + 5 n at most MAX_QUEUE_DEPTH, no signal arrives and the answers of the system are
  well-behaved, then at the shutdown the program has written exactly the events the collector enqueued to
  the backend the configuration names, one per line and in order, each a well-formed JSON value, for every
  interleaving of the threads.\<close>

theorem syswatch_writes:
  assumes "main_setup me g0 w0 = Inr (cfg, g, w)"
    "0 < iterations cfg" "2 + 5 * iterations cfg \<le> int MAX_QUEUE_DEPTH" "created qp"
    "sys_run (me_output me) cfg (\<lambda>a. no_signal a \<and> good_answers cfg a) (sys_start qp g w) s"
    "s_main s = Shutdown" "s_queue s = Some q"
  shows "(output_type cfg = ''stdout'' \<longrightarrow> w_stdout (s_world s) = w_stdout w0 @ event_lines (s_sent s)) \<and>
    (output_type cfg = ''file'' \<longrightarrow> w_file (s_world s) = w_file w0 @ event_lines (s_sent s)) \<and>
    list_all json_value (s_sent s)"
proof -
  note m = main_setup_facts [OF assms(1)]
  have runs: "sys_run (me_output me) cfg no_signal (sys_start qp g w) s"
    "sys_run (me_output me) cfg (good_answers cfg) (sys_start qp g w) s"
    by (rule run_mono [OF assms(5)]; simp)+
  have all: "s_emitted s = s_sent s" by (rule short_run_all [OF assms(4) runs(1) assms(6,7,2,3)])
  have "stdout_final w (s_world s) (s_sent s)" if "output_type cfg = ''stdout''"
    using m(5) that all stdout_always [OF assms(5)] by simp
  moreover have "file_final w (s_world s) (s_sent s)" if "output_type cfg = ''file''"
    using m(6,9) that all file_always [OF assms(5)] by simp
  moreover have "list_all json_value (s_sent s)"
    using run_texts [OF assms(4) runs(2)] by (simp add: texts_inv_def)
  ultimately show ?thesis using m(4) by (simp add: stdout_final_def file_final_def only_stderr_def)
qed

text \<open>C2: From the command line to the server: when the configuration names http_post, the run is as short
  and as quiet and has reached the shutdown, nothing fails and the server accepts every request, then main
  returns 0 in its last step and each event the collector enqueued has been posted in exactly one request, in order, in batches of at most batch_size
  events.\<close>

theorem syswatch_http:
  assumes "main_setup me g0 w0 = Inr (cfg, g, w)" "output_type cfg = ''http_post''" "healthy (me_output me)"
    "0 < iterations cfg" "2 + 5 * iterations cfg \<le> int MAX_QUEUE_DEPTH" "created qp"
    "sys_run (me_output me) cfg no_signal (sys_start qp g w) s" "s_main s = Shutdown" "s_queue s = Some q"
    "sys_step (me_output me) cfg s (Main_Step ok b) s'"
  shows "s_main s' = Returned 0 \<and> (\<exists>bs. concat bs = s_sent s \<and>
    (\<forall>x \<in> set bs. x \<noteq> [] \<and> int (length x) \<le> g_batch_size g) \<and>
    w_posts (s_world s') = w_posts w0 @ map (\<lambda>x. http_request g (http_body x)) bs)"
proof -
  note m = main_setup_facts [OF assms(1)]
  have ok: "batch_ok g" "batch_list g = []" using m(7,8) assms(2) by blast+
  have r: "s_main s' = Returned 0" "s_emitted s' = s_emitted s"
    using assms(8,10) by (auto elim!: sys_stepE)
  have "s_emitted s = s_sent s" by (rule short_run_all [OF assms(6-9,4,5)])
  moreover have "sys_run (me_output me) cfg (\<lambda>_. True) (sys_start qp g w) s'"
    by (rule run_step [OF run_mono [OF assms(7)] assms(10)]) simp_all
  note http_delivers [OF assms(3) ok this r(1)]
  ultimately show ?thesis using r m(4) by (simp add: only_stderr_def)
qed

section \<open>Examples\<close>

text \<open>One pass to the standard output, and one to a server that accepts everything.\<close>

definition demo_once :: "(cstring \<Rightarrow> char list option) \<Rightarrow> main_env" where
  "demo_once files = demo_main\<lparr>me_opts := [(opt_code (CHR ''n''), ''1''), (2001, ''c.yaml'')], me_open := files\<rparr>"

definition demo_started :: "main_env \<Rightarrow> cstring \<Rightarrow> bool" where
  "demo_started me kind =
     (case main_setup me zero_output demo_world of
        Inl _ \<Rightarrow> False
      | Inr (cfg, _) \<Rightarrow> output_type cfg = kind \<and> iterations cfg = 1 \<and> host_override cfg = [])"

lemma demo_starts:
  "demo_started (demo_once (me_open demo_stdout)) ''stdout''" "demo_started (demo_once (me_open demo_http)) ''http_post''"
  by code_simp+

lemma demo_started_run:
  assumes "demo_started me kind"
  shows "\<exists>cfg g w s q. main_setup me zero_output demo_world = Inr (cfg, g, w) \<and> output_type cfg = kind \<and>
    iterations cfg = 1 \<and> host_override cfg = [] \<and>
    sys_run (me_output me) cfg (calm demo_sample) (sys_start (Some zeroed_queue) g w) s \<and>
    s_main s = Shutdown \<and> s_queue s = Some q \<and> s_sent s \<noteq> []"
proof -
  obtain cfg g w where m: "main_setup me zero_output demo_world = Inr (cfg, g, w)" "output_type cfg = kind"
    "iterations cfg = 1" "host_override cfg = []"
    using assms by (auto simp: demo_started_def split: sum.split_asm)
  then show ?thesis using complete_run [OF created_zeroed, of cfg "me_output me" demo_sample g w] by auto
qed

theorem syswatch_writes_witness:
  "\<exists>s :: sys. s_sent s \<noteq> [] \<and> w_stdout (s_world s) = event_lines (s_sent s) \<and>
     list_all json_value (s_sent s)"
proof -
  obtain cfg g w s q where r:
    "main_setup (demo_once (me_open demo_stdout)) zero_output demo_world = Inr (cfg, g, w)" "output_type cfg = ''stdout''"
    "iterations cfg = 1" "host_override cfg = []"
    "sys_run (me_output (demo_once (me_open demo_stdout))) cfg (calm demo_sample) (sys_start (Some zeroed_queue) g w) s"
    "s_main s = Shutdown" "s_queue s = Some q" "s_sent s \<noteq> []"
    using demo_started_run [OF demo_starts(1)] by blast
  have "sys_run (me_output (demo_once (me_open demo_stdout))) cfg (\<lambda>a. no_signal a \<and> good_answers cfg a)
      (sys_start (Some zeroed_queue) g w) s"
    by (rule run_mono [OF r(5)]) (simp add: calm_no_signal demo_good_answers)
  from syswatch_writes [OF r(1) _ _ created_zeroed this r(6,7)] r(2,3,8) show ?thesis
    by (intro exI [of _ s]) (simp add: MAX_QUEUE_DEPTH_def demo_world_def)
qed

theorem syswatch_http_witness:
  "\<exists>(s :: sys) (s' :: sys) bs. s_sent s \<noteq> [] \<and> s_main s' = Returned 0 \<and> concat bs = s_sent s \<and>
     length (w_posts (s_world s')) = length bs"
proof -
  let ?me = "demo_once (me_open demo_http)"
  obtain cfg g w s q where r:
    "main_setup ?me zero_output demo_world = Inr (cfg, g, w)" "output_type cfg = ''http_post''"
    "iterations cfg = 1" "sys_run (me_output ?me) cfg (calm demo_sample) (sys_start (Some zeroed_queue) g w) s"
    "s_main s = Shutdown" "s_queue s = Some q" "s_sent s \<noteq> []"
    using demo_started_run [OF demo_starts(2)] by blast
  have h: "healthy (me_output ?me)" using demo_env_healthy by (simp add: demo_once_def demo_main_def)
  have q: "sys_run (me_output ?me) cfg no_signal (sys_start (Some zeroed_queue) g w) s"
    by (rule run_mono [OF r(4)]) (rule calm_no_signal)
  let ?s' = "(shutdown_output (me_output ?me) 0 s)\<lparr>s_queue := None\<rparr>"
  have n: "0 < iterations cfg" "2 + 5 * iterations cfg \<le> int MAX_QUEUE_DEPTH"
    using r(3) by (simp_all add: MAX_QUEUE_DEPTH_def)
  from syswatch_http [OF r(1,2) h n created_zeroed q r(5,6) sys_step.main_shutdown [OF r(5)]]
  obtain bs where "s_main ?s' = Returned 0" "concat bs = s_sent s"
    "w_posts (s_world ?s') = w_posts demo_world @ map (\<lambda>x. http_request g (http_body x)) bs" by blast
  with r(7) show ?thesis
    by (intro exI [of _ s] exI [of _ ?s'] exI [of _ bs]) (simp add: demo_world_def)
qed

end
